theory Spec2Isabelle
  imports Main "HOL-Library.AList"
begin

section \<open>JavaScript values\<close>

text \<open>
  The values that flow through \<^verbatim>\<open>putToPostgres\<close> (src/put-to-postgres.js):
  primitives, MongoDB ObjectIds (an object whose \<^verbatim>\<open>toString\<close> is its hex string),
  arrays and plain objects.  Numbers are the integers (SQL ids are integers) that
  \<^verbatim>\<open>String\<close> prints in decimal notation, those below \<^verbatim>\<open>1e21\<close> in
  magnitude; fractions, NaN and infinities are not represented.  A plain object is the
  list of its own enumerable properties in insertion order, with distinct keys; this is
  the order of \<^verbatim>\<open>Object.entries\<close> as long as no key is a canonical array index.
\<close>

datatype jsval =
    Undefined
  | Null
  | JBool bool
  | JNum int
  | JStr string
  | ObjectId string
  | JArr "jsval list"
  | JObj "(string \<times> jsval) list"

type_synonym obj = "(string \<times> jsval) list"

text \<open>\<^verbatim>\<open>Boolean(v)\<close>, the test of \<^verbatim>\<open>if (v)\<close>, \<^verbatim>\<open>!v\<close> and \<^verbatim>\<open>filter(Boolean)\<close>.\<close>

fun truthy :: "jsval \<Rightarrow> bool" where
  "truthy Undefined = False"
| "truthy Null = False"
| "truthy (JBool b) = b"
| "truthy (JNum n) = (n \<noteq> 0)"
| "truthy (JStr s) = (s \<noteq> [])"
| "truthy (ObjectId h) = True"
| "truthy (JArr xs) = True"
| "truthy (JObj ps) = True"

text \<open>\<^verbatim>\<open>v == null\<close>: true of \<^verbatim>\<open>null\<close> and \<^verbatim>\<open>undefined\<close> only.\<close>

fun nullish :: "jsval \<Rightarrow> bool" where
  "nullish Undefined = True"
| "nullish Null = True"
| "nullish v = False"

text \<open>\<^verbatim>\<open>a ?? b\<close>\<close>

definition nullish_coalesce :: "jsval \<Rightarrow> jsval \<Rightarrow> jsval" where
  "nullish_coalesce a b = (if nullish a then b else a)"

text \<open>\<^verbatim>\<open>Array.isArray(v)\<close>\<close>

fun isArray :: "jsval \<Rightarrow> bool" where
  "isArray (JArr xs) = True"
| "isArray v = False"

text \<open>\<^verbatim>\<open>xs[i]\<close> on an array: \<^verbatim>\<open>undefined\<close> out of range.\<close>

definition js_index :: "jsval list \<Rightarrow> nat \<Rightarrow> jsval" where
  "js_index xs i = (if i < length xs then xs ! i else Undefined)"

subsection \<open>\<^verbatim>\<open>String(v)\<close>\<close>

fun digits :: "nat \<Rightarrow> string" where
  "digits n =
     (if n < 10 then [char_of (48 + n)]
      else digits (n div 10) @ [char_of (48 + n mod 10)])"

declare digits.simps [simp del]

definition show_int :: "int \<Rightarrow> string" where
  "show_int i = (if i < 0 then CHR ''-'' # digits (nat (- i)) else digits (nat i))"

fun join_comma :: "string list \<Rightarrow> string" where
  "join_comma [] = []"
| "join_comma [s] = s"
| "join_comma (s # t # ss) = s @ CHR '','' # join_comma (t # ss)"

fun js_String :: "jsval \<Rightarrow> string" where
  "js_String Undefined = ''undefined''"
| "js_String Null = ''null''"
| "js_String (JBool b) = (if b then ''true'' else ''false'')"
| "js_String (JNum n) = show_int n"
| "js_String (JStr s) = s"
| "js_String (ObjectId h) = h"
| "js_String (JArr xs) =
     join_comma (map (\<lambda>x. if x = Null \<or> x = Undefined then [] else js_String x) xs)"
| "js_String (JObj ps) = ''[object Object]''"

section \<open>Plain objects\<close>

text \<open>\<^verbatim>\<open>Object.prototype.hasOwnProperty.call(r, k)\<close>\<close>

definition has_own :: "obj \<Rightarrow> string \<Rightarrow> bool" where
  "has_own r k = (k \<in> set (map fst r))"

text \<open>\<^verbatim>\<open>r[k]\<close> for a data property of the record: \<^verbatim>\<open>undefined\<close> when absent.\<close>

definition get_prop :: "obj \<Rightarrow> string \<Rightarrow> jsval" where
  "get_prop r k = (case map_of r k of Some v \<Rightarrow> v | None \<Rightarrow> Undefined)"

text \<open>
  \<^verbatim>\<open>r[k] = v\<close>: an existing property keeps its place, a new one goes last.
  (The key \<^verbatim>\<open>__proto__\<close>, which would set the prototype instead, is not a
  rename target in this model.)
\<close>

definition set_prop :: "obj \<Rightarrow> string \<Rightarrow> jsval \<Rightarrow> obj" where
  "set_prop r k v = AList.update k v r"

text \<open>\<^verbatim>\<open>delete r[k]\<close>\<close>

definition delete_prop :: "obj \<Rightarrow> string \<Rightarrow> obj" where
  "delete_prop r k = AList.delete k r"

text \<open>\<^verbatim>\<open>{ ...a, ...b }\<close>\<close>

definition spread :: "obj \<Rightarrow> obj \<Rightarrow> obj" where
  "spread a b = fold (\<lambda>(k, v) r. set_prop r k v) b a"

text \<open>
  The property names every object literal inherits from \<^verbatim>\<open>Object.prototype\<close>.
  Reading one of them from \<^verbatim>\<open>{}\<close> yields a function (or the prototype itself),
  which is truthy.
\<close>

definition object_prototype_keys :: "string list" where
  "object_prototype_keys =
     [''constructor'', ''toString'', ''toLocaleString'', ''valueOf'', ''hasOwnProperty'',
      ''isPrototypeOf'', ''propertyIsEnumerable'', ''__proto__'', ''__defineGetter__'',
      ''__defineSetter__'', ''__lookupGetter__'', ''__lookupSetter__'']"

section \<open>JavaScript \<^verbatim>\<open>Map\<close> and the ids registry\<close>

text \<open>
  A \<^verbatim>\<open>Map\<close> is the list of its entries in insertion order.  Keys are compared
  by SameValueZero, which on the strings and numbers used here is equality.
\<close>

type_synonym id_map = "(jsval \<times> jsval) list"

definition map_has :: "id_map \<Rightarrow> jsval \<Rightarrow> bool" where
  "map_has m k = (map_of m k \<noteq> None)"

definition map_get :: "id_map \<Rightarrow> jsval \<Rightarrow> jsval" where
  "map_get m k = (case map_of m k of Some v \<Rightarrow> v | None \<Rightarrow> Undefined)"

definition map_set :: "id_map \<Rightarrow> jsval \<Rightarrow> jsval \<Rightarrow> id_map" where
  "map_set m k v = AList.update k v m"

text \<open>
  \<^verbatim>\<open>idsRegistry\<close>: \<^verbatim>\<open>{ collection: Map<mongo_id, sql_id> }\<close>, a plain object
  keyed by collection names; the list holds its own properties.
\<close>

type_synonym registry = "(string \<times> id_map) list"

text \<open>
  \<^verbatim>\<open>idsRegistry[c]\<close> as line 201 reads it, for any string \<open>c\<close>: the
  \<^verbatim>\<open>Map\<close> of an own key; for a name that is not an own key but is inherited from
  \<^verbatim>\<open>Object.prototype\<close>, the inherited function or object, which is truthy and has no
  method \<^verbatim>\<open>get\<close>; \<^verbatim>\<open>undefined\<close> otherwise.
\<close>

datatype registry_value = NoMap | Inherited | TheMap id_map

definition registry_lookup :: "registry \<Rightarrow> string \<Rightarrow> registry_value" where
  "registry_lookup reg c =
     (case map_of reg c of
        Some m \<Rightarrow> TheMap m
      | None \<Rightarrow> if c \<in> set object_prototype_keys then Inherited else NoMap)"

text \<open>
  \<^verbatim>\<open>if (!idsRegistry[c]) idsRegistry[c] = new Map()\<close>, for the collection the call
  is made for.  Its name \<^verbatim>\<open>selfCollectionName\<close> is taken not to be one of the names
  inherited from \<^verbatim>\<open>Object.prototype\<close>, for which line 152 would find the inherited
  property and create no \<^verbatim>\<open>Map\<close>.
\<close>

definition ensure_map :: "registry \<Rightarrow> string \<Rightarrow> registry" where
  "ensure_map reg c = (case map_of reg c of Some m \<Rightarrow> reg | None \<Rightarrow> reg @ [(c, [])])"

text \<open>
  \<^verbatim>\<open>idsRegistry[c].set(k, v)\<close>.  It is only called for the collection whose
  sub-map \<open>ensure_map\<close> has created.
\<close>

definition registry_set :: "registry \<Rightarrow> string \<Rightarrow> jsval \<Rightarrow> jsval \<Rightarrow> registry" where
  "registry_set reg c k v =
     (case map_of reg c of Some m \<Rightarrow> AList.update c (map_set m k v) reg | None \<Rightarrow> reg)"

text \<open>\<^verbatim>\<open>idsRegistry[c].get(k)\<close>\<close>

definition registry_get :: "registry \<Rightarrow> string \<Rightarrow> jsval \<Rightarrow> jsval" where
  "registry_get reg c k = (case map_of reg c of Some m \<Rightarrow> map_get m k | None \<Rightarrow> Undefined)"

section \<open>Options and console output\<close>

text \<open>
  \<^verbatim>\<open>PutOptions\<close>.  The user functions are pure: they do not write to the row they
  are given.  A missing option is the empty object, as the destructuring defaults make
  it.

  A mapper returns a value (\<open>Inr\<close>) or throws one (\<open>Inl\<close>): JavaScript can throw any
  value, \<^verbatim>\<open>null\<close> and \<^verbatim>\<open>undefined\<close> included.  \<^verbatim>\<open>new Error(msg)\<close> is an
  object whose property \<^verbatim>\<open>message\<close> is \<open>msg\<close>.
\<close>

type_synonym mapper = "jsval \<Rightarrow> obj \<Rightarrow> jsval + jsval"

definition js_Error :: "string \<Rightarrow> jsval" where
  "js_Error msg = JObj [(''message'', JStr msg)]"

text \<open>
  \<^verbatim>\<open>e.message\<close> for a caught value \<^verbatim>\<open>e\<close>.  Reading a property of
  \<^verbatim>\<open>null\<close> or \<^verbatim>\<open>undefined\<close> throws a TypeError (\<open>None\<close>); a primitive, an
  array or an ObjectId has no such property.
\<close>

definition error_message :: "jsval \<Rightarrow> jsval option" where
  "error_message e =
     (case e of
        Undefined \<Rightarrow> None
      | Null \<Rightarrow> None
      | JObj ps \<Rightarrow> Some (get_prop ps ''message'')
      | _ \<Rightarrow> Some Undefined)"

text \<open>
  \<^verbatim>\<open>transform(selfSqlId, foreignSqlId, raw)\<close> returns the extra columns of the link
  row, or a falsy value (\<open>None\<close>), which \<^verbatim>\<open>|| {}\<close> replaces by the empty object;
  what it throws is not caught, and \<open>Inl\<close> has the text of it.
\<close>

type_synonym transform_fn = "jsval \<Rightarrow> jsval \<Rightarrow> obj \<Rightarrow> string + obj option"

record link_config =
  linkTable :: string
  selfIdCol :: string
  foreignIdCol :: string
  transform :: "transform_fn option"

record put_options =
  rename :: "(string \<times> string) list"
  redefine :: "(string \<times> mapper) list"
  foreignKeys :: "(string \<times> string) list"
  links :: "(string \<times> link_config) list"

text \<open>One constructor for each \<^verbatim>\<open>console.log\<close> / \<^verbatim>\<open>console.warn\<close> of the function.\<close>

datatype console_line =
    LogNothingToInsert string
  | LogAddedColumn string
  | LogSchemaCheck string string
  | WarnRedefineFail string string string
  | WarnMissingCollectionMap string string string
  | WarnLostFKs string string nat
  | WarnMissingFK string string jsval
  | WarnDropArray string string
  | LogAlreadyExist string nat
  | LogInserted string nat
  | WarnLinkSkipNoSqlId string jsval
  | WarnLinkSkipMissingFK jsval
  | WarnLinkInsert string string
  | LogInsertedLinks string string nat

section \<open>Exceptions\<close>

text \<open>
  What a call can throw: the error of a failed statement, as Knex rejects with it; the
  value thrown by \<^verbatim>\<open>transform\<close>; and the TypeError of the JavaScript engine for a
  read of a property of \<^verbatim>\<open>null\<close> or \<^verbatim>\<open>undefined\<close>, or for a call of
  something that is not a function.
\<close>

datatype error = DbError string | Thrown string | TypeError string

text \<open>
  A \<^verbatim>\<open>for\<close>-\<^verbatim>\<open>of\<close> statement whose body may throw: it is left at the first
  exception, with the state and the console of that moment.
\<close>

fun each ::
  "('s \<Rightarrow> console_line list \<Rightarrow> 'e \<Rightarrow> error option \<times> 's \<times> console_line list)
     \<Rightarrow> 'e list \<Rightarrow> 's \<Rightarrow> console_line list \<Rightarrow> error option \<times> 's \<times> console_line list" where
  "each body [] s out = (None, s, out)"
| "each body (e # es) s out =
     (case body s out e of
        (Some err, s', out') \<Rightarrow> (Some err, s', out')
      | (None, s', out') \<Rightarrow> each body es s' out')"

section \<open>The row transformation (lines 173-238)\<close>

text \<open>
  Each stage is the statement of the source over \<^verbatim>\<open>Object.entries\<close> of one option,
  acting on the working copy \<^verbatim>\<open>r\<close> and on the console.
\<close>

subsection \<open>Rename stage\<close>

definition rename_step :: "obj \<Rightarrow> string \<times> string \<Rightarrow> obj" where
  "rename_step r e =
     (case e of (oldName, newName) \<Rightarrow>
        if has_own r oldName
        then delete_prop (set_prop r newName (get_prop r oldName)) oldName
        else r)"

definition rename_stage :: "(string \<times> string) list \<Rightarrow> obj \<Rightarrow> obj" where
  "rename_stage rn r = fold (\<lambda>e r'. rename_step r' e) rn r"

subsection \<open>Redefine stage\<close>

text \<open>
  Lines 187-191.  The handler prints \<^verbatim>\<open>e.message\<close>; when the mapper has thrown
  \<^verbatim>\<open>null\<close> or \<^verbatim>\<open>undefined\<close>, reading it throws in turn, inside the handler,
  and nothing catches that.
\<close>

definition redefine_step ::
  "string \<Rightarrow> obj \<Rightarrow> console_line list \<Rightarrow> string \<times> mapper
     \<Rightarrow> error option \<times> obj \<times> console_line list" where
  "redefine_step table r out e =
     (case e of (field, mapper) \<Rightarrow>
        if has_own r field
        then (case mapper (get_prop r field) r of
                Inr v \<Rightarrow> (None, set_prop r field v, out)
              | Inl ex \<Rightarrow>
                  (case error_message ex of
                     Some m \<Rightarrow> (None, r, out @ [WarnRedefineFail table field (js_String m)])
                   | None \<Rightarrow>
                       (Some (TypeError (''Cannot read properties of '' @ js_String ex)), r, out)))
        else (None, r, out))"

definition redefine_stage ::
  "string \<Rightarrow> (string \<times> mapper) list \<Rightarrow> obj \<Rightarrow> console_line list
     \<Rightarrow> error option \<times> obj \<times> console_line list" where
  "redefine_stage table rd r out = each (redefine_step table) rd r out"

subsection \<open>Foreign-key stage\<close>

text \<open>\<^verbatim>\<open>fkMap.get(k)\<close>, for what line 201 has found.\<close>

definition fkMap_get :: "registry_value \<Rightarrow> jsval \<Rightarrow> error + jsval" where
  "fkMap_get fkMap k =
     (case fkMap of
        TheMap m \<Rightarrow> Inr (map_get m k)
      | _ \<Rightarrow> Inl (TypeError ''fkMap.get is not a function''))"

text \<open>
  \<^verbatim>\<open>oldVal.map((id) => (id == null ? null : fkMap.get(String(id))))\<close>, line 211.
\<close>

fun map_ids :: "registry_value \<Rightarrow> jsval list \<Rightarrow> error + jsval list" where
  "map_ids fkMap [] = Inr []"
| "map_ids fkMap (i # ids) =
     (case (if nullish i then Inr Null else fkMap_get fkMap (JStr (js_String i))) of
        Inl err \<Rightarrow> Inl err
      | Inr v \<Rightarrow>
          (case map_ids fkMap ids of
             Inl err \<Rightarrow> Inl err
           | Inr vs \<Rightarrow> Inr (v # vs)))"

definition fk_step ::
  "string \<Rightarrow> registry \<Rightarrow> obj \<Rightarrow> console_line list \<Rightarrow> string \<times> string
     \<Rightarrow> error option \<times> obj \<times> console_line list" where
  "fk_step table idsRegistry r out e =
     (case e of (field, foreignCollection) \<Rightarrow>
        if \<not> has_own r field then (None, r, out)
        else
          let oldVal = get_prop r field in
          if nullish oldVal then (None, r, out)
          else
            let fkMap = registry_lookup idsRegistry foreignCollection in
            if fkMap = NoMap
            then (None, set_prop r field Null,
                  out @ [WarnMissingCollectionMap table field foreignCollection])
            else
              (case oldVal of
                 JArr ids \<Rightarrow>
                   (case map_ids fkMap ids of
                      Inl err \<Rightarrow> (Some err, r, out)
                    | Inr vs \<Rightarrow>
                        let mapped = filter (\<lambda>v. \<not> nullish v) vs;
                            out' =
                              (if length mapped \<noteq> length ids
                               then out @ [WarnLostFKs table field (length ids - length mapped)]
                               else out)
                        in (None, set_prop r field (nullish_coalesce (js_index mapped 0) Null),
                            out'))
               | _ \<Rightarrow>
                   (case fkMap_get fkMap (JStr (js_String oldVal)) of
                      Inl err \<Rightarrow> (Some err, r, out)
                    | Inr newId \<Rightarrow>
                        if nullish newId
                        then (None, set_prop r field Null,
                              out @ [WarnMissingFK table field oldVal])
                        else (None, set_prop r field newId, out))))"

definition fk_stage ::
  "string \<Rightarrow> registry \<Rightarrow> (string \<times> string) list \<Rightarrow> obj \<Rightarrow> console_line list
     \<Rightarrow> error option \<times> obj \<times> console_line list" where
  "fk_stage table idsRegistry fks r out = each (fk_step table idsRegistry) fks r out"

subsection \<open>Array elision\<close>

text \<open>
  \<^verbatim>\<open>links[key]\<close> is truthy for an own key of \<^verbatim>\<open>links\<close> (its value is the
  configuration array) and for every name inherited from \<^verbatim>\<open>Object.prototype\<close>.
\<close>

definition links_lookup_truthy :: "(string \<times> link_config) list \<Rightarrow> string \<Rightarrow> bool" where
  "links_lookup_truthy lk key =
     (key \<in> set (map fst lk) \<or> key \<in> set object_prototype_keys)"

definition drop_step ::
  "string \<Rightarrow> (string \<times> link_config) list \<Rightarrow> obj \<times> console_line list \<Rightarrow> string \<times> jsval
     \<Rightarrow> obj \<times> console_line list" where
  "drop_step table lk s e =
     (case (s, e) of ((r, out), (key, val)) \<Rightarrow>
        if isArray val \<and> \<not> links_lookup_truthy lk key
        then (delete_prop r key, out @ [WarnDropArray table key])
        else (r, out))"

text \<open>The statement runs over the entries \<^verbatim>\<open>r\<close> had when it started.\<close>

definition drop_stage ::
  "string \<Rightarrow> (string \<times> link_config) list \<Rightarrow> obj \<times> console_line list
     \<Rightarrow> obj \<times> console_line list" where
  "drop_stage table lk s = fold (\<lambda>e s'. drop_step table lk s' e) (fst s) s"

subsection \<open>One row, and all rows\<close>

text \<open>
  The callback of \<^verbatim>\<open>rows.map\<close>; \<^verbatim>\<open>let r = { ...row }\<close> is the value \<open>row\<close>.
  When a stage throws, the callback throws, and the working copy is lost.
\<close>

definition prepare_row ::
  "string \<Rightarrow> put_options \<Rightarrow> registry \<Rightarrow> obj \<Rightarrow> console_line list
     \<Rightarrow> error option \<times> obj \<times> console_line list" where
  "prepare_row table options idsRegistry row out =
     (case redefine_stage table (redefine options) (rename_stage (rename options) row) out of
        (Some err, r1, out1) \<Rightarrow> (Some err, r1, out1)
      | (None, r1, out1) \<Rightarrow>
          (case fk_stage table idsRegistry (foreignKeys options) r1 out1 of
             (Some err, r2, out2) \<Rightarrow> (Some err, r2, out2)
           | (None, r2, out2) \<Rightarrow>
               (case drop_stage table (links options) (r2, out2) of
                  (r3, out3) \<Rightarrow> (None, r3, out3))))"

text \<open>
  \<^verbatim>\<open>rows.map\<close>: the copies made, with the outcome.  When the callback throws,
  \<^verbatim>\<open>map\<close> throws and there is no array \<^verbatim>\<open>prepared\<close>; the copies made until
  then are unreachable.
\<close>

fun prepare_rows ::
  "string \<Rightarrow> put_options \<Rightarrow> registry \<Rightarrow> obj list \<Rightarrow> console_line list
     \<Rightarrow> error option \<times> obj list \<times> console_line list" where
  "prepare_rows table options idsRegistry [] out = (None, [], out)"
| "prepare_rows table options idsRegistry (row # rows) out =
     (case prepare_row table options idsRegistry row out of
        (Some err, r, out1) \<Rightarrow> (Some err, [r], out1)
      | (None, r, out1) \<Rightarrow>
          (case prepare_rows table options idsRegistry rows out1 of
             (err, rs, out2) \<Rightarrow> (err, r # rs, out2)))"

section \<open>The target store\<close>

text \<open>
  What \<^verbatim>\<open>putToPostgres\<close> asks of Knex and PostgreSQL, as far as the function
  depends on it.  A table has a serial \<^verbatim>\<open>id\<close>, possibly a text column
  \<^verbatim>\<open>mongo_id\<close>, possibly unique, and further column constraints (\<open>accepts\<close>:
  whether a flat row can be stored at all).  The rows are kept as they were inserted,
  each with the id it was given.  \<open>alter_allowed\<close> says whether the connection may
  change the schema of the table.  A rollback restores the whole of this state, the
  serial counters included (PostgreSQL does not give back the values of a sequence; no
  fact below depends on the ids a later call is given).
\<close>

record pg_table =
  has_mongo_id :: bool
  mongo_id_unique :: bool
  alter_allowed :: bool
  accepts :: "obj \<Rightarrow> bool"
  next_id :: int
  stored :: "(int \<times> obj) list"

text \<open>
  \<open>driver_text\<close> is the text the database driver sends for a value that is neither a
  string, a number nor a boolean; it is not part of the repository.

  \<open>aborted\<close> is the state of the open transaction: once a statement has failed,
  PostgreSQL refuses every further statement of the transaction, whether or not the
  caller has caught the error, and ends the transaction by a rollback even when it is
  asked to commit.
\<close>

record pg =
  tables :: "(string \<times> pg_table) list"
  driver_text :: "jsval \<Rightarrow> string"
  aborted :: bool

definition aborted_message :: string where
  "aborted_message = ''current transaction is aborted, commands ignored until end of transaction block''"

text \<open>The content of a text column for a JavaScript value: \<open>None\<close> is SQL NULL.\<close>

definition column_text :: "pg \<Rightarrow> jsval \<Rightarrow> string option" where
  "column_text db v =
     (case v of
        Undefined \<Rightarrow> None
      | Null \<Rightarrow> None
      | JStr s \<Rightarrow> Some s
      | JNum n \<Rightarrow> Some (show_int n)
      | JBool b \<Rightarrow> Some (if b then ''true'' else ''false'')
      | _ \<Rightarrow> Some (driver_text db v))"

definition mongo_text :: "pg \<Rightarrow> obj \<Rightarrow> string option" where
  "mongo_text db r = column_text db (get_prop r ''mongo_id'')"

text \<open>\<^verbatim>\<open>trx.schema.hasColumn(table, "mongo_id")\<close>\<close>

definition hasColumn :: "pg \<Rightarrow> string \<Rightarrow> bool" where
  "hasColumn db table =
     (case map_of (tables db) table of Some t \<Rightarrow> has_mongo_id t | None \<Rightarrow> False)"

text \<open>\<^verbatim>\<open>trx.schema.alterTable(table, t => t.text("mongo_id").unique().index())\<close>\<close>

definition alterTable :: "pg \<Rightarrow> string \<Rightarrow> string + pg" where
  "alterTable db table =
     (if aborted db then Inl aborted_message
      else
        (case map_of (tables db) table of
           None \<Rightarrow> Inl ''relation does not exist''
         | Some t \<Rightarrow>
             if alter_allowed t
             then Inr (db\<lparr>tables :=
                     AList.update table (t\<lparr>has_mongo_id := True, mongo_id_unique := True\<rparr>)
                       (tables db)\<rparr>)
             else Inl ''permission denied''))"

text \<open>
  \<^verbatim>\<open>trx(table).select("id", "mongo_id").whereIn("mongo_id", mongoIds)\<close>: the rows
  whose \<^verbatim>\<open>mongo_id\<close> is the text of one of the values, as pairs of id and
  \<^verbatim>\<open>mongo_id\<close>.
\<close>

definition select_whereIn :: "pg \<Rightarrow> string \<Rightarrow> jsval list \<Rightarrow> string + (int \<times> jsval) list" where
  "select_whereIn db table mongoIds =
     (if aborted db then Inl aborted_message
      else
        (case map_of (tables db) table of
           None \<Rightarrow> Inl ''relation does not exist''
         | Some t \<Rightarrow>
             if \<not> has_mongo_id t then Inl ''column mongo_id does not exist''
             else Inr (List.map_filter
                         (\<lambda>(i, r). case mongo_text db r of
                                     None \<Rightarrow> None
                                   | Some s \<Rightarrow>
                                       if Some s \<in> set (map (column_text db) mongoIds)
                                       then Some (i, JStr s) else None)
                         (stored t))))"

text \<open>
  \<^verbatim>\<open>trx(table).insert(rows).returning(["id", "mongo_id"])\<close>: one statement, which
  stores all the rows with fresh serial ids or none of them.
\<close>

definition insert_returning :: "pg \<Rightarrow> string \<Rightarrow> obj list \<Rightarrow> string + pg \<times> (int \<times> jsval) list" where
  "insert_returning db table rs =
     (if aborted db then Inl aborted_message
      else
        (case map_of (tables db) table of
           None \<Rightarrow> Inl ''relation does not exist''
         | Some t \<Rightarrow>
             if \<not> has_mongo_id t \<and> list_ex (\<lambda>r. \<not> nullish (get_prop r ''mongo_id'')) rs
             then Inl ''column mongo_id does not exist''
             else if \<not> list_all (accepts t) rs then Inl ''row violates a column constraint''
             else
               let new = zip (map (\<lambda>k. next_id t + int k) [0 ..< length rs]) rs;
                   all = stored t @ new
               in if mongo_id_unique t
                     \<and> \<not> distinct (List.map_filter (\<lambda>(i, r). mongo_text db r) all)
                  then Inl ''duplicate key value violates unique constraint''
                  else Inr (db\<lparr>tables :=
                               AList.update table
                                 (t\<lparr>next_id := next_id t + int (length rs), stored := all\<rparr>)
                                 (tables db)\<rparr>,
                            map (\<lambda>(i, r). (i, case mongo_text db r of
                                                Some s \<Rightarrow> JStr s | None \<Rightarrow> Null)) new)))"

section \<open>\<^verbatim>\<open>putToPostgres\<close>\<close>

subsection \<open>Schema safeguard (lines 159-170)\<close>

text \<open>
  The error of a failing \<^verbatim>\<open>alterTable\<close> is caught and logged; the transaction is
  aborted all the same.
\<close>

definition schema_check :: "pg \<Rightarrow> string \<Rightarrow> console_line list \<Rightarrow> pg \<times> console_line list" where
  "schema_check trx table out =
     (if hasColumn trx table then (trx, out)
      else (case alterTable trx table of
              Inr trx' \<Rightarrow> (trx', out @ [LogAddedColumn table])
            | Inl msg \<Rightarrow> (trx\<lparr>aborted := True\<rparr>, out @ [LogSchemaCheck table msg])))"

subsection \<open>Idempotency split (lines 240-263)\<close>

definition mongoIds_of :: "obj list \<Rightarrow> jsval list" where
  "mongoIds_of prepared = filter truthy (map (\<lambda>r. get_prop r ''mongo_id'') prepared)"

text \<open>\<^verbatim>\<open>new Map(existing.map((x) => [x.mongo_id, x.id]))\<close>\<close>

definition existingMap_of :: "(int \<times> jsval) list \<Rightarrow> id_map" where
  "existingMap_of existing = fold (\<lambda>(i, m) em. map_set em m (JNum i)) existing []"

definition toInsert_of :: "id_map \<Rightarrow> obj list \<Rightarrow> obj list" where
  "toInsert_of existingMap prepared =
     filter (\<lambda>r. truthy (get_prop r ''mongo_id'')
                \<and> \<not> map_has existingMap (get_prop r ''mongo_id'')) prepared"

definition toSkip_of :: "id_map \<Rightarrow> obj list \<Rightarrow> obj list" where
  "toSkip_of existingMap prepared =
     filter (\<lambda>r. truthy (get_prop r ''mongo_id'')
                \<and> map_has existingMap (get_prop r ''mongo_id'')) prepared"

text \<open>The loop over \<^verbatim>\<open>toSkip\<close> (lines 250-252).\<close>

definition register_skipped :: "registry \<Rightarrow> string \<Rightarrow> id_map \<Rightarrow> obj list \<Rightarrow> registry" where
  "register_skipped idsRegistry selfCollectionName existingMap toSkip =
     fold (\<lambda>r reg. registry_set reg selfCollectionName (get_prop r ''mongo_id'')
                      (map_get existingMap (get_prop r ''mongo_id'')))
       toSkip idsRegistry"

text \<open>
  The loop over \<^verbatim>\<open>inserted\<close> (lines 257-259); \<^verbatim>\<open>Number(row.id)\<close> is the
  serial id itself.
\<close>

definition register_inserted :: "registry \<Rightarrow> string \<Rightarrow> (int \<times> jsval) list \<Rightarrow> registry" where
  "register_inserted idsRegistry selfCollectionName inserted =
     fold (\<lambda>(i, m) reg. registry_set reg selfCollectionName (JStr (js_String m)) (JNum i))
       inserted idsRegistry"

subsection \<open>Link tables (lines 266-310)\<close>

text \<open>
  The scan of lines 283-289: \<^verbatim>\<open>foreignSqlId\<close> starts as \<^verbatim>\<open>null\<close>; the first
  sub-map of \<^verbatim>\<open>Object.entries(idsRegistry)\<close> that has the key gives its value, and
  the loop breaks.
\<close>

fun scan_registry :: "registry \<Rightarrow> jsval \<Rightarrow> jsval" where
  "scan_registry [] key = Null"
| "scan_registry ((collectionName, idMap) # rest) key =
     (if map_has idMap key then map_get idMap key else scan_registry rest key)"

text \<open>Line 296: the extra columns, or the message of what \<^verbatim>\<open>transform\<close> threw.\<close>

definition link_extra :: "link_config \<Rightarrow> jsval \<Rightarrow> jsval \<Rightarrow> obj \<Rightarrow> string + obj" where
  "link_extra cfg selfSqlId foreignSqlId raw =
     (case transform cfg of
        None \<Rightarrow> Inr []
      | Some f \<Rightarrow>
          (case f selfSqlId foreignSqlId raw of
             Inl msg \<Rightarrow> Inl msg
           | Inr None \<Rightarrow> Inr []
           | Inr (Some extra) \<Rightarrow> Inr extra))"

text \<open>The loop over the elements of \<^verbatim>\<open>raw[arrayField]\<close> (lines 278-298).\<close>

fun link_elements ::
  "link_config \<Rightarrow> registry \<Rightarrow> obj \<Rightarrow> jsval \<Rightarrow> jsval list \<Rightarrow> obj list \<Rightarrow> console_line list
     \<Rightarrow> (string + obj list) \<times> console_line list" where
  "link_elements cfg idsRegistry raw selfSqlId [] linkRows out = (Inr linkRows, out)"
| "link_elements cfg idsRegistry raw selfSqlId (foreignOldId # rest) linkRows out =
     (let foreignSqlId = scan_registry idsRegistry (JStr (js_String foreignOldId)) in
      if \<not> truthy foreignSqlId
      then link_elements cfg idsRegistry raw selfSqlId rest linkRows
             (out @ [WarnLinkSkipMissingFK foreignOldId])
      else
        let base = set_prop (set_prop [] (selfIdCol cfg) selfSqlId)
                     (foreignIdCol cfg) foreignSqlId
        in (case link_extra cfg selfSqlId foreignSqlId raw of
              Inl msg \<Rightarrow> (Inl msg, out)
            | Inr extra \<Rightarrow>
                link_elements cfg idsRegistry raw selfSqlId rest
                  (linkRows @ [spread base extra]) out))"

text \<open>The loop over the original \<^verbatim>\<open>rows\<close> (lines 269-299).\<close>

fun gather_links ::
  "string \<Rightarrow> link_config \<Rightarrow> registry \<Rightarrow> string \<Rightarrow> obj list \<Rightarrow> obj list \<Rightarrow> console_line list
     \<Rightarrow> (string + obj list) \<times> console_line list" where
  "gather_links arrayField cfg idsRegistry selfCollectionName [] linkRows out =
     (Inr linkRows, out)"
| "gather_links arrayField cfg idsRegistry selfCollectionName (raw # rows) linkRows out =
     (case get_prop raw arrayField of
        JArr elems \<Rightarrow>
          if elems = []
          then gather_links arrayField cfg idsRegistry selfCollectionName rows linkRows out
          else
            let selfSqlId = registry_get idsRegistry selfCollectionName
                              (JStr (js_String (get_prop raw ''mongo_id'')))
            in if \<not> truthy selfSqlId
               then gather_links arrayField cfg idsRegistry selfCollectionName rows linkRows
                      (out @ [WarnLinkSkipNoSqlId selfCollectionName (get_prop raw ''mongo_id'')])
               else (case link_elements cfg idsRegistry raw selfSqlId elems linkRows out of
                       (Inl msg, out') \<Rightarrow> (Inl msg, out')
                     | (Inr linkRows', out') \<Rightarrow>
                         gather_links arrayField cfg idsRegistry selfCollectionName rows
                           linkRows' out')
      | _ \<Rightarrow> gather_links arrayField cfg idsRegistry selfCollectionName rows linkRows out)"

text \<open>
  The statement over \<^verbatim>\<open>Object.entries(links)\<close>.  A failing link insert is caught
  and logged, and stores nothing; the transaction is aborted from then on, so that every
  later link insert fails in the same way.  An exception of \<^verbatim>\<open>transform\<close> is not
  caught.
\<close>

fun materialize_links ::
  "string \<Rightarrow> string \<Rightarrow> registry \<Rightarrow> obj list \<Rightarrow> (string \<times> link_config) list \<Rightarrow> pg
     \<Rightarrow> console_line list \<Rightarrow> (error + pg) \<times> console_line list" where
  "materialize_links table selfCollectionName idsRegistry rows [] trx out = (Inr trx, out)"
| "materialize_links table selfCollectionName idsRegistry rows ((arrayField, cfg) # rest) trx out =
     (case gather_links arrayField cfg idsRegistry selfCollectionName rows [] out of
        (Inl msg, out1) \<Rightarrow> (Inl (Thrown msg), out1)
      | (Inr linkRows, out1) \<Rightarrow>
          if linkRows \<noteq> []
          then (case insert_returning trx (linkTable cfg) linkRows of
                  Inl msg \<Rightarrow>
                    materialize_links table selfCollectionName idsRegistry rows rest
                      (trx\<lparr>aborted := True\<rparr>)
                      (out1 @ [WarnLinkInsert (linkTable cfg) msg,
                               LogInsertedLinks table (linkTable cfg) (length linkRows)])
                | Inr (trx', returned) \<Rightarrow>
                    materialize_links table selfCollectionName idsRegistry rows rest trx'
                      (out1 @ [LogInsertedLinks table (linkTable cfg) (length linkRows)]))
          else materialize_links table selfCollectionName idsRegistry rows rest trx out1)"

subsection \<open>The transaction callback and the function\<close>

text \<open>
  The state the function leaves behind: what it threw (if anything), the database, the
  in-memory registry and the console; and whether the transaction was rolled back, which
  a caller cannot tell from a call that returns.
\<close>

record put_result =
  thrown :: "error option"
  db_after :: pg
  registry_after :: registry
  console :: "console_line list"
  rolled_back :: bool

text \<open>Lines 248-263: registration of the skipped rows, then the batched insert.\<close>

definition upsert ::
  "pg \<Rightarrow> string \<Rightarrow> registry \<Rightarrow> string \<Rightarrow> id_map \<Rightarrow> obj list \<Rightarrow> console_line list
     \<Rightarrow> (error + pg) \<times> registry \<times> console_line list" where
  "upsert trx table idsRegistry selfCollectionName existingMap prepared out =
     (let toInsert = toInsert_of existingMap prepared;
          toSkip = toSkip_of existingMap prepared;
          reg1 = (if toSkip \<noteq> []
                  then register_skipped idsRegistry selfCollectionName existingMap toSkip
                  else idsRegistry);
          out1 = (if toSkip \<noteq> [] then out @ [LogAlreadyExist table (length toSkip)] else out)
      in if toInsert \<noteq> []
         then (case insert_returning trx table toInsert of
                 Inl msg \<Rightarrow> (Inl (DbError msg), reg1, out1)
               | Inr (trx', inserted) \<Rightarrow>
                   (Inr trx', register_inserted reg1 selfCollectionName inserted,
                    out1 @ [LogInserted table (length inserted)]))
         else (Inr trx, reg1, out1 @ [LogInserted table 0]))"

text \<open>The callback of \<^verbatim>\<open>knex.transaction\<close> (lines 156-311).\<close>

definition transaction_body ::
  "pg \<Rightarrow> string \<Rightarrow> obj list \<Rightarrow> put_options \<Rightarrow> registry \<Rightarrow> string
     \<Rightarrow> (error + pg) \<times> registry \<times> console_line list" where
  "transaction_body trx table rows options idsRegistry selfCollectionName =
     (case schema_check trx table [] of
        (trx1, out0) \<Rightarrow>
          (case prepare_rows table options idsRegistry rows out0 of
             (Some err, copies, out1) \<Rightarrow> (Inl err, idsRegistry, out1)
           | (None, prepared, out1) \<Rightarrow>
               (case select_whereIn trx1 table (mongoIds_of prepared) of
                  Inl msg \<Rightarrow> (Inl (DbError msg), idsRegistry, out1)
                | Inr existing \<Rightarrow>
                    (case upsert trx1 table idsRegistry selfCollectionName
                            (existingMap_of existing) prepared out1 of
                       (Inl e, reg2, out2) \<Rightarrow> (Inl e, reg2, out2)
                     | (Inr trx2, reg2, out2) \<Rightarrow>
                         (case materialize_links table selfCollectionName reg2 rows
                                 (links options) trx2 out2 of
                            (res, out3) \<Rightarrow> (res, reg2, out3))))))"

text \<open>\<^verbatim>\<open>knex.transaction\<close> opens a transaction, in which no statement has failed.\<close>

definition begin_transaction :: "pg \<Rightarrow> pg" where
  "begin_transaction knex = knex\<lparr>aborted := False\<rparr>"

text \<open>
  \<^verbatim>\<open>putToPostgres(knex, table, rows, options, idsRegistry, selfCollectionName)\<close>.
  When the callback throws, the transaction is rolled back (the database is the one the
  call started with) and the exception propagates.  When the callback returns, Knex
  commits; in an aborted transaction this rolls back as well, and the call returns
  normally.  The registry is a JavaScript object in memory, which keeps whatever the
  callback has written to it.
\<close>

definition putToPostgres ::
  "pg \<Rightarrow> string \<Rightarrow> obj list \<Rightarrow> put_options \<Rightarrow> registry \<Rightarrow> string \<Rightarrow> put_result" where
  "putToPostgres knex table rows options idsRegistry selfCollectionName =
     (if rows = []
      then \<lparr>thrown = None, db_after = knex, registry_after = idsRegistry,
            console = [LogNothingToInsert table], rolled_back = False\<rparr>
      else
        (case transaction_body (begin_transaction knex) table rows options
                (ensure_map idsRegistry selfCollectionName) selfCollectionName of
           (Inl e, reg, out) \<Rightarrow>
             \<lparr>thrown = Some e, db_after = knex, registry_after = reg, console = out,
              rolled_back = True\<rparr>
         | (Inr db', reg, out) \<Rightarrow>
             if aborted db'
             then \<lparr>thrown = None, db_after = knex, registry_after = reg, console = out,
                   rolled_back = True\<rparr>
             else \<lparr>thrown = None, db_after = db', registry_after = reg, console = out,
                   rolled_back = False\<rparr>))"

text \<open>The rows of a table, without their ids, in the order they were inserted.\<close>

definition table_rows :: "pg \<Rightarrow> string \<Rightarrow> obj list" where
  "table_rows db table =
     (case map_of (tables db) table of Some t \<Rightarrow> map snd (stored t) | None \<Rightarrow> [])"

section \<open>Vocabulary of the claims\<close>



text \<open>
  Lines 201-226 for a present, non-null value of the field: the value the foreign-key
  stage assigns and what it prints, or what it throws.
\<close>

definition fk_resolve ::
  "string \<Rightarrow> registry \<Rightarrow> string \<Rightarrow> string \<Rightarrow> jsval \<Rightarrow> error + jsval \<times> console_line list" where
  "fk_resolve table idsRegistry field foreignCollection oldVal =
     (let fkMap = registry_lookup idsRegistry foreignCollection in
      if fkMap = NoMap
      then Inr (Null, [WarnMissingCollectionMap table field foreignCollection])
      else
        (case oldVal of
           JArr ids \<Rightarrow>
             (case map_ids fkMap ids of
                Inl err \<Rightarrow> Inl err
              | Inr vs \<Rightarrow>
                  let mapped = filter (\<lambda>v. \<not> nullish v) vs
                  in Inr (nullish_coalesce (js_index mapped 0) Null,
                          if length mapped \<noteq> length ids
                          then [WarnLostFKs table field (length ids - length mapped)] else []))
         | _ \<Rightarrow>
             (case fkMap_get fkMap (JStr (js_String oldVal)) of
                Inl err \<Rightarrow> Inl err
              | Inr newId \<Rightarrow>
                  if nullish newId then Inr (Null, [WarnMissingFK table field oldVal])
                  else Inr (newId, []))))"

text \<open>
  The prepared rows of a call: what \<^verbatim>\<open>rows.map\<close> returns; none when the callback
  throws.
\<close>

definition prepared_of :: "string \<Rightarrow> put_options \<Rightarrow> registry \<Rightarrow> obj list \<Rightarrow> obj list" where
  "prepared_of table options idsRegistry rows =
     (case prepare_rows table options idsRegistry rows [] of
        (None, prepared, out) \<Rightarrow> prepared
      | (Some err, copies, out) \<Rightarrow> [])"

text \<open>\<^verbatim>\<open>typeof v === "string"\<close>\<close>

fun isString :: "jsval \<Rightarrow> bool" where
  "isString (JStr s) = True"
| "isString v = False"


text \<open>
  Following the words of the specification (4.1 and 4.4), for comparison with the scan
  of the source: \<^verbatim>\<open>resolve(collection, source_id)\<close>; \<^verbatim>\<open>resolveAny(source_id)\<close>,
  which scans the sub-maps of all collections; and the resolution of a link element,
  which prefers an explicitly declared owning collection and otherwise falls back to
  \<^verbatim>\<open>resolveAny\<close>.
\<close>

definition spec_resolve :: "registry \<Rightarrow> string \<Rightarrow> jsval \<Rightarrow> jsval option" where
  "spec_resolve reg collection source_id =
     (case map_of reg collection of None \<Rightarrow> None | Some m \<Rightarrow> map_of m source_id)"

definition spec_resolveAny :: "registry \<Rightarrow> jsval \<Rightarrow> (string \<times> jsval) option" where
  "spec_resolveAny reg source_id =
     (case find (\<lambda>(c, m). map_of m source_id \<noteq> None) reg of
        None \<Rightarrow> None
      | Some (c, m) \<Rightarrow> map_option (Pair c) (map_of m source_id))"

definition spec_resolve_element :: "string option \<Rightarrow> registry \<Rightarrow> jsval \<Rightarrow> jsval option" where
  "spec_resolve_element owner reg source_id =
     (case owner of
        Some collection \<Rightarrow> spec_resolve reg collection source_id
      | None \<Rightarrow> map_option snd (spec_resolveAny reg source_id))"

section \<open>The row transformation on a store of objects\<close>

text \<open>
  To state that the source records are not written to, the records live in a store: the
  list of the objects allocated so far, a reference being an index into it.  The callback
  of \<^verbatim>\<open>rows.map\<close> (lines 173-238) is given again, statement by statement, each
  assignment and each \<^verbatim>\<open>delete\<close> with the reference it writes through.  Property
  values are immutable here: the callback reads arrays with \<^verbatim>\<open>map\<close>,
  \<^verbatim>\<open>filter\<close>, \<^verbatim>\<open>length\<close> and an index, and calls no method that changes one.
  A reference is only read when it is in the store; the facts below ask the references
  of the source records to be.
\<close>

type_synonym heap = "obj list"

text \<open>\<^verbatim>\<open>let r = { ...row }\<close>: a new object with the properties of \<^verbatim>\<open>row\<close>.\<close>

definition h_copy :: "heap \<Rightarrow> nat \<Rightarrow> heap \<times> nat" where
  "h_copy h row = (h @ [h ! row], length h)"

text \<open>\<^verbatim>\<open>r[k] = v\<close>\<close>

definition h_assign :: "heap \<Rightarrow> nat \<Rightarrow> string \<Rightarrow> jsval \<Rightarrow> heap" where
  "h_assign h r k v = h[r := set_prop (h ! r) k v]"

text \<open>\<^verbatim>\<open>delete r[k]\<close>\<close>

definition h_delete :: "heap \<Rightarrow> nat \<Rightarrow> string \<Rightarrow> heap" where
  "h_delete h r k = h[r := delete_prop (h ! r) k]"

text \<open>The body of each of the four stages; \<open>r\<close> is the reference of the copy.\<close>

definition h_rename_step :: "nat \<Rightarrow> heap \<Rightarrow> string \<times> string \<Rightarrow> heap" where
  "h_rename_step r h e =
     (case e of (oldName, newName) \<Rightarrow>
        if has_own (h ! r) oldName
        then h_delete (h_assign h r newName (get_prop (h ! r) oldName)) r oldName
        else h)"

definition h_redefine_step ::
  "string \<Rightarrow> nat \<Rightarrow> heap \<Rightarrow> console_line list \<Rightarrow> string \<times> mapper
     \<Rightarrow> error option \<times> heap \<times> console_line list" where
  "h_redefine_step table r h out e =
     (case e of (field, mapper) \<Rightarrow>
        if has_own (h ! r) field
        then (case mapper (get_prop (h ! r) field) (h ! r) of
                Inr v \<Rightarrow> (None, h_assign h r field v, out)
              | Inl ex \<Rightarrow>
                  (case error_message ex of
                     Some m \<Rightarrow> (None, h, out @ [WarnRedefineFail table field (js_String m)])
                   | None \<Rightarrow>
                       (Some (TypeError (''Cannot read properties of '' @ js_String ex)), h, out)))
        else (None, h, out))"

definition h_fk_step ::
  "string \<Rightarrow> registry \<Rightarrow> nat \<Rightarrow> heap \<Rightarrow> console_line list \<Rightarrow> string \<times> string
     \<Rightarrow> error option \<times> heap \<times> console_line list" where
  "h_fk_step table idsRegistry r h out e =
     (case e of (field, foreignCollection) \<Rightarrow>
        if \<not> has_own (h ! r) field then (None, h, out)
        else
          let oldVal = get_prop (h ! r) field in
          if nullish oldVal then (None, h, out)
          else
            let fkMap = registry_lookup idsRegistry foreignCollection in
            if fkMap = NoMap
            then (None, h_assign h r field Null,
                  out @ [WarnMissingCollectionMap table field foreignCollection])
            else
              (case oldVal of
                 JArr ids \<Rightarrow>
                   (case map_ids fkMap ids of
                      Inl err \<Rightarrow> (Some err, h, out)
                    | Inr vs \<Rightarrow>
                        let mapped = filter (\<lambda>v. \<not> nullish v) vs;
                            out' =
                              (if length mapped \<noteq> length ids
                               then out @ [WarnLostFKs table field (length ids - length mapped)]
                               else out)
                        in (None,
                            h_assign h r field (nullish_coalesce (js_index mapped 0) Null),
                            out'))
               | _ \<Rightarrow>
                   (case fkMap_get fkMap (JStr (js_String oldVal)) of
                      Inl err \<Rightarrow> (Some err, h, out)
                    | Inr newId \<Rightarrow>
                        if nullish newId
                        then (None, h_assign h r field Null,
                              out @ [WarnMissingFK table field oldVal])
                        else (None, h_assign h r field newId, out))))"

definition h_drop_step ::
  "string \<Rightarrow> (string \<times> link_config) list \<Rightarrow> nat \<Rightarrow> heap \<times> console_line list
     \<Rightarrow> string \<times> jsval \<Rightarrow> heap \<times> console_line list" where
  "h_drop_step table lk r s e =
     (case (s, e) of ((h, out), (key, val)) \<Rightarrow>
        if isArray val \<and> \<not> links_lookup_truthy lk key
        then (h_delete h r key, out @ [WarnDropArray table key])
        else (h, out))"

text \<open>
  The callback, and \<^verbatim>\<open>rows.map\<close> over the references of the source records: the
  outcome, the store, the references of the copies made, and the console.
\<close>

definition h_prepare_row ::
  "string \<Rightarrow> put_options \<Rightarrow> registry \<Rightarrow> heap \<Rightarrow> nat \<Rightarrow> console_line list
     \<Rightarrow> error option \<times> heap \<times> nat \<times> console_line list" where
  "h_prepare_row table options idsRegistry h row out =
     (case h_copy h row of
        (h0, r) \<Rightarrow>
          let h1 = fold (\<lambda>e h'. h_rename_step r h' e) (rename options) h0 in
          (case each (h_redefine_step table r) (redefine options) h1 out of
             (Some err, h2, out2) \<Rightarrow> (Some err, h2, r, out2)
           | (None, h2, out2) \<Rightarrow>
               (case each (h_fk_step table idsRegistry r) (foreignKeys options) h2 out2 of
                  (Some err, h3, out3) \<Rightarrow> (Some err, h3, r, out3)
                | (None, h3, out3) \<Rightarrow>
                    (case fold (\<lambda>e s. h_drop_step table (links options) r s e) (h3 ! r)
                            (h3, out3) of
                       (h4, out4) \<Rightarrow> (None, h4, r, out4)))))"

fun h_prepare_rows ::
  "string \<Rightarrow> put_options \<Rightarrow> registry \<Rightarrow> heap \<Rightarrow> nat list \<Rightarrow> console_line list
     \<Rightarrow> error option \<times> heap \<times> nat list \<times> console_line list" where
  "h_prepare_rows table options idsRegistry h [] out = (None, h, [], out)"
| "h_prepare_rows table options idsRegistry h (row # rows) out =
     (case h_prepare_row table options idsRegistry h row out of
        (Some err, h1, r, out1) \<Rightarrow> (Some err, h1, [r], out1)
      | (None, h1, r, out1) \<Rightarrow>
          (case h_prepare_rows table options idsRegistry h1 rows out1 of
             (err, h2, rs, out2) \<Rightarrow> (err, h2, r # rs, out2)))"

section \<open>Example data\<close>

definition ex_table :: pg_table where
  "ex_table = \<lparr>has_mongo_id = True, mongo_id_unique = True, alter_allowed = True,
               accepts = (\<lambda>r. True), next_id = 1, stored = []\<rparr>"

definition ex_no_options :: put_options where
  "ex_no_options = \<lparr>rename = [], redefine = [], foreignKeys = [], links = []\<rparr>"

definition ex_db_employees :: pg where
  "ex_db_employees =
     \<lparr>tables = [(''employees'', ex_table)], driver_text = js_String, aborted = False\<rparr>"

text \<open>A departments table that already holds \<^verbatim>\<open>d1\<close> under id 7.\<close>

definition ex_db_d1 :: pg where
  "ex_db_d1 =
     \<lparr>tables = [(''departments'',
        ex_table\<lparr>next_id := 8,
                 stored := [(7, [(''mongo_id'', JStr ''d1''), (''name'', JStr ''Eng'')])]\<rparr>)],
      driver_text = js_String, aborted = False\<rparr>"

definition ex_reg_d1 :: registry where
  "ex_reg_d1 = [(''departments'', [(JStr ''d1'', JNum 5)])]"

definition ex_rows_d1 :: "obj list" where
  "ex_rows_d1 = [[(''mongo_id'', JStr ''d1''), (''name'', JStr ''Eng'')]]"

definition ex_prepared_mixed :: "obj list" where
  "ex_prepared_mixed =
     [[(''mongo_id'', Null), (''name'', JStr ''Ann'')],
      [(''mongo_id'', JStr ''e2''), (''name'', JStr ''Bob'')],
      [(''name'', JStr ''Cy'')]]"

definition ex_redefine :: "(string \<times> mapper) list" where
  "ex_redefine =
     [(''name'', \<lambda>v r. Inl (js_Error ''boom'')),
      (''age'', \<lambda>v r. Inr (JObj [(''was'', v), (''name'', get_prop r ''name'')]))]"

definition ex_person :: obj where
  "ex_person = [(''mongo_id'', JStr ''e1''), (''name'', JStr ''Ann''), (''age'', JNum 41)]"

definition ex_row_constructor :: obj where
  "ex_row_constructor =
     [(''mongo_id'', JStr ''e1''), (''constructor'', JArr [JStr ''x'']), (''tags'', JArr [JStr ''y''])]"

definition ex_reg_departments :: registry where
  "ex_reg_departments = [(''departments'', [(JStr ''d1'', JNum 1)])]"




definition ex_rows_two :: "obj list" where
  "ex_rows_two =
     [[(''mongo_id'', JStr ''e1''), (''name'', JStr ''Ann'')],
      [(''mongo_id'', JStr ''e2''), (''name'', JStr ''Bob'')]]"



definition ex_db_awards :: pg where
  "ex_db_awards =
     \<lparr>tables = [(''employees'', ex_table),
                (''employees_awards'', ex_table\<lparr>has_mongo_id := False, mongo_id_unique := False\<rparr>)],
      driver_text = js_String, aborted = False\<rparr>"

definition ex_reg_awards :: registry where
  "ex_reg_awards = [(''awards'', [(JStr ''a1'', JNum 1), (JStr ''a2'', JNum 2)])]"

definition ex_award_links :: put_options where
  "ex_award_links =
     ex_no_options\<lparr>links :=
       [(''award_ids'', \<lparr>linkTable = ''employees_awards'', selfIdCol = ''employee_id'',
                         foreignIdCol = ''award_id'', transform = None\<rparr>)]\<rparr>"


definition ex_rows_bob :: "obj list" where
  "ex_rows_bob =
     [[(''mongo_id'', JStr ''e2''), (''name'', JStr ''Bob''),
       (''award_ids'', JArr [JStr ''a1'', JStr ''a2''])],
      [(''mongo_id'', JStr ''e3''), (''name'', JStr ''Cy'')]]"


definition ex_reg_two_owners :: registry where
  "ex_reg_two_owners =
     [(''departments'', [(JStr ''x1'', JNum 5)]), (''awards'', [(JStr ''x1'', JNum 9)])]"

definition ex_links_with_twin :: put_options where
  "ex_links_with_twin =
     ex_no_options\<lparr>foreignKeys := [(''award_ids'', ''awards'')],
       links := [(''award_ids'', \<lparr>linkTable = ''employees_awards'', selfIdCol = ''employee_id'',
                                 foreignIdCol = ''award_id'', transform = None\<rparr>)]\<rparr>"

definition ex_heap :: heap where
  "ex_heap =
     [[(''mongo_id'', JStr ''e1''), (''name'', JStr ''Ann''), (''department'', JStr ''d9''),
       (''tags'', JArr [JStr ''x''])]]"

definition ex_all_stages :: put_options where
  "ex_all_stages =
     \<lparr>rename = [(''name'', ''full_name'')],
      redefine = [(''mongo_id'', \<lambda>v r. Inr v)],
      foreignKeys = [(''department'', ''departments'')],
      links = []\<rparr>"

definition ex_redefine_null :: put_options where
  "ex_redefine_null = ex_no_options\<lparr>redefine := [(''name'', \<lambda>v r. Inl Null)]\<rparr>"

definition ex_redefine_options :: put_options where
  "ex_redefine_options = ex_no_options\<lparr>redefine := ex_redefine\<rparr>"

definition ex_rows_numeric :: "obj list" where
  "ex_rows_numeric = [[(''mongo_id'', JNum 5), (''name'', JStr ''Ann'')]]"

text \<open>A link table that accepts no row.\<close>

definition ex_db_awards_closed :: pg where
  "ex_db_awards_closed =
     \<lparr>tables = [(''employees'', ex_table),
                (''employees_awards'',
                 ex_table\<lparr>has_mongo_id := False, mongo_id_unique := False,
                          accepts := (\<lambda>r. False)\<rparr>)],
      driver_text = js_String, aborted = False\<rparr>"

section \<open>Basic facts\<close>

subsection \<open>Objects and maps\<close>

lemma get_set_prop: "get_prop (set_prop r k v) k' = (if k' = k then v else get_prop r k')"
  by (simp add: get_prop_def set_prop_def update_conv')

lemma get_delete_prop:
  "get_prop (delete_prop r k) k' = (if k' = k then Undefined else get_prop r k')"
  by (simp add: get_prop_def delete_prop_def delete_conv')

lemma has_own_set_prop: "has_own (set_prop r k v) k' = (k' = k \<or> has_own r k')"
  using dom_update [of k v r] by (auto simp: has_own_def set_prop_def)

lemma has_own_delete_prop: "has_own (delete_prop r k) k' = (k' \<noteq> k \<and> has_own r k')"
  by (auto simp: has_own_def delete_prop_def delete_keys)


lemma map_get_set: "map_get (map_set m k v) k' = (if k' = k then v else map_get m k')"
  by (simp add: map_get_def map_set_def update_conv')

lemma map_has_set: "map_has (map_set m k v) k' = (k' = k \<or> map_has m k')"
  by (simp add: map_has_def map_set_def update_conv')

subsection \<open>The registry\<close>

lemma registry_set_same:
  "map_of reg c = Some m \<Longrightarrow> map_of m k = Some v \<Longrightarrow> registry_set reg c k v = reg"
  by (simp add: registry_set_def map_set_def update_triv)

lemma registry_get_set:
  "map_of reg c = Some m \<Longrightarrow>
   registry_get (registry_set reg c k v) c' k' =
     (if c' = c \<and> k' = k then v else registry_get reg c' k')"
  by (simp add: registry_get_def registry_set_def update_conv' map_get_set)

lemma map_of_registry_set:
  "map_of (registry_set reg c k v) c' =
     (if c' = c then map_option (\<lambda>m. map_set m k v) (map_of reg c) else map_of reg c')"
  by (simp add: registry_set_def update_conv' split: option.splits)

lemma registry_set_dom:
  "map_of (registry_set reg c k v) c' = None \<longleftrightarrow> map_of reg c' = None"
  by (simp add: map_of_registry_set)


lemma register_skipped_get:
  "map_of reg self \<noteq> None \<Longrightarrow>
   registry_get (register_skipped reg self em ts) c k =
     (if c = self \<and> k \<in> (\<lambda>r. get_prop r ''mongo_id'') ` set ts then map_get em k
      else registry_get reg c k)"
  unfolding register_skipped_def
proof (induction ts arbitrary: reg)
  case Nil
  then show ?case by simp
next
  case (Cons r ts)
  from Cons.prems obtain m where m: "map_of reg self = Some m" by auto
  have "map_of (registry_set reg self (get_prop r ''mongo_id'')
                  (map_get em (get_prop r ''mongo_id''))) self \<noteq> None"
    using Cons.prems by (simp add: registry_set_dom)
  from Cons.IH [OF this] show ?case
    by (auto simp: registry_get_set [OF m])
qed


subsection \<open>The store and the upsert\<close>

lemma insert_returning_InrD:
  assumes "insert_returning db table rs = Inr (db', ret)"
  shows "\<exists>t. map_of (tables db) table = Some t \<and>
           db' = db\<lparr>tables := AList.update table
                    (t\<lparr>next_id := next_id t + int (length rs),
                       stored := stored t
                         @ zip (map (\<lambda>k. next_id t + int k) [0 ..< length rs]) rs\<rparr>)
                    (tables db)\<rparr> \<and>
           ret = map (\<lambda>(i, r). (i, case mongo_text db r of Some s \<Rightarrow> JStr s | None \<Rightarrow> Null))
                   (zip (map (\<lambda>k. next_id t + int k) [0 ..< length rs]) rs)"
  using assms
  by (auto simp: insert_returning_def Let_def split: option.splits if_splits)

lemma insert_returning_table_rows:
  assumes "insert_returning db table rs = Inr (db', ret)"
  shows "table_rows db' table' =
           (if table' = table then table_rows db table @ rs else table_rows db table')"
proof -
  from insert_returning_InrD [OF assms] obtain t where
    t: "map_of (tables db) table = Some t" and
    db': "db' = db\<lparr>tables := AList.update table
                    (t\<lparr>next_id := next_id t + int (length rs),
                       stored := stored t
                         @ zip (map (\<lambda>k. next_id t + int k) [0 ..< length rs]) rs\<rparr>)
                    (tables db)\<rparr>"
    by blast
  show ?thesis
    by (simp add: table_rows_def db' update_conv' t)
qed

lemma toInsert_toSkip_partition:
  "r \<in> set prepared \<Longrightarrow>
   (\<not> truthy (get_prop r ''mongo_id'') \<longrightarrow>
      r \<notin> set (toInsert_of em prepared) \<and> r \<notin> set (toSkip_of em prepared)) \<and>
   (truthy (get_prop r ''mongo_id'') \<longrightarrow>
      (r \<in> set (toInsert_of em prepared)) \<noteq> (r \<in> set (toSkip_of em prepared)))"
  by (auto simp: toInsert_of_def toSkip_of_def)

lemma upsert_ignores_falsy:
  "upsert trx table reg self em prepared out =
   upsert trx table reg self em (filter (\<lambda>r. truthy (get_prop r ''mongo_id'')) prepared) out"
  by (simp add: upsert_def toInsert_of_def toSkip_of_def conj_commute cong: conj_cong)

lemma upsert_table_rows:
  assumes "fst (upsert trx table reg self em prepared out) = Inr trx'"
  shows "table_rows trx' table' =
           (if table' = table then table_rows trx table @ toInsert_of em prepared
            else table_rows trx table')"
proof (cases "toInsert_of em prepared = []")
  case True
  with assms have "trx' = trx" by (simp add: upsert_def Let_def)
  with True show ?thesis by simp
next
  case False
  with assms obtain ret where
    "insert_returning trx table (toInsert_of em prepared) = Inr (trx', ret)"
    by (auto simp: upsert_def Let_def split: sum.splits)
  from insert_returning_table_rows [OF this] show ?thesis .
qed

subsection \<open>The stages of the row transformation\<close>

lemma each_console:
  assumes "\<And>s out e. body s out e = (case body s [] e of (err, s', w) \<Rightarrow> (err, s', out @ w))"
  shows "each body es s out = (case each body es s [] of (err, s', w) \<Rightarrow> (err, s', out @ w))"
proof (induction es arbitrary: s out)
  case Nil
  show ?case by simp
next
  case (Cons e es)
  obtain err s1 w1 where b: "body s [] e = (err, s1, w1)" by (cases "body s [] e")
  have b': "body s out e = (err, s1, out @ w1)"
    using assms [of s out e] by (simp add: b)
  show ?case
  proof (cases err)
    case None
    show ?thesis
      using Cons.IH [of s1 "out @ w1"] Cons.IH [of s1 w1]
      by (simp add: b b' None split: prod.splits)
  next
    case (Some x)
    then show ?thesis by (simp add: b b')
  qed
qed

lemma each_append:
  "each body (a @ b) s out =
     (case each body a s out of
        (Some err, s', out') \<Rightarrow> (Some err, s', out')
      | (None, s', out') \<Rightarrow> each body b s' out')"
  by (induction a arbitrary: s out) (auto split: prod.splits option.splits)

lemma each_invariant:
  assumes "\<And>s out e. e \<in> set es \<Longrightarrow> P (fst (snd (body s out e))) = P s"
  shows "P (fst (snd (each body es s out))) = P s"
  using assms
proof (induction es arbitrary: s out)
  case Nil
  show ?case by simp
next
  case (Cons e es)
  obtain err s1 out1 where b: "body s out e = (err, s1, out1)" by (cases "body s out e")
  have p1: "P s1 = P s" using Cons.prems [of e s out] by (simp add: b)
  have ih: "P (fst (snd (each body es s1 out1))) = P s1"
    by (rule Cons.IH) (simp add: Cons.prems)
  show ?case
    by (cases err) (simp_all add: b p1 ih)
qed

lemma each_out:
  assumes "\<And>s out e. set out \<subseteq> set (snd (snd (body s out e)))"
  shows "set out \<subseteq> set (snd (snd (each body es s out)))"
proof (induction es arbitrary: s out)
  case Nil
  show ?case by simp
next
  case (Cons e es)
  obtain err s1 out1 where b: "body s out e = (err, s1, out1)" by (cases "body s out e")
  have p1: "set out \<subseteq> set out1" using assms [where out = out and s = s and e = e] by (simp add: b)
  show ?case
    using p1 Cons.IH [where s = s1 and out = out1] by (cases err) (auto simp: b)
qed

lemma redefine_step_console:
  "redefine_step table r out e =
     (case redefine_step table r [] e of (err, r', w) \<Rightarrow> (err, r', out @ w))"
  by (auto simp: redefine_step_def split: prod.splits sum.splits option.splits)

lemma redefine_step_keys: "map fst (fst (snd (redefine_step table r out e))) = map fst r"
  by (auto simp: redefine_step_def set_prop_def has_own_def update_keys
      split: prod.splits sum.splits option.splits)

lemma redefine_step_other:
  "fst e \<noteq> field \<Longrightarrow> get_prop (fst (snd (redefine_step table r out e))) field = get_prop r field"
  by (auto simp: redefine_step_def get_set_prop split: prod.splits sum.splits option.splits)

lemma redefine_step_out: "set out \<subseteq> set (snd (snd (redefine_step table r out e)))"
  by (auto simp: redefine_step_def split: prod.splits sum.splits option.splits)

lemma fk_step_eq:
  "fk_step table reg r out (field, coll) =
     (if has_own r field \<and> \<not> nullish (get_prop r field)
      then (case fk_resolve table reg field coll (get_prop r field) of
              Inl err \<Rightarrow> (Some err, r, out)
            | Inr (v, w) \<Rightarrow> (None, set_prop r field v, out @ w))
      else (None, r, out))"
proof (cases "has_own r field \<and> \<not> nullish (get_prop r field)")
  case False
  then show ?thesis by (auto simp: fk_step_def Let_def)
next
  case True
  show ?thesis
  proof (cases "registry_lookup reg coll = NoMap")
    case nm: True
    with True show ?thesis by (simp add: fk_step_def fk_resolve_def)
  next
    case nm: False
    show ?thesis
    proof (cases "get_prop r field")
      case (JArr ids)
      with True nm show ?thesis
        by (simp add: fk_step_def fk_resolve_def Let_def split: sum.splits)
    qed (use True nm in \<open>simp_all add: fk_step_def fk_resolve_def Let_def split: sum.splits\<close>)
  qed
qed

lemma fk_step_console:
  "fk_step table reg r out e =
     (case fk_step table reg r [] e of (err, r', w) \<Rightarrow> (err, r', out @ w))"
  by (cases e) (simp add: fk_step_eq split: sum.splits prod.splits)




lemma redefine_stage_console:
  "redefine_stage table rd r out =
     (case redefine_stage table rd r [] of (err, r', w) \<Rightarrow> (err, r', out @ w))"
  unfolding redefine_stage_def
  by (rule each_console) (rule redefine_step_console)

lemma fk_stage_console:
  "fk_stage table reg fks r out =
     (case fk_stage table reg fks r [] of (err, r', w) \<Rightarrow> (err, r', out @ w))"
  unfolding fk_stage_def
  by (rule each_console) (rule fk_step_console)

lemma redefine_stage_keys: "map fst (fst (snd (redefine_stage table rd r out))) = map fst r"
  unfolding redefine_stage_def
  by (rule each_invariant [where P = "map fst"]) (rule redefine_step_keys)


lemma redefine_stage_other:
  "field \<notin> fst ` set rd \<Longrightarrow>
   get_prop (fst (snd (redefine_stage table rd r out))) field = get_prop r field"
  unfolding redefine_stage_def
  by (rule each_invariant [where P = "\<lambda>r. get_prop r field"]) (auto intro: redefine_step_other)


lemma redefine_stage_out: "set out \<subseteq> set (snd (snd (redefine_stage table rd r out)))"
  unfolding redefine_stage_def by (rule each_out) (rule redefine_step_out)


lemma redefine_stage_append:
  "redefine_stage table (a @ b) r out =
     (case redefine_stage table a r out of
        (Some err, r', out') \<Rightarrow> (Some err, r', out')
      | (None, r', out') \<Rightarrow> redefine_stage table b r' out')"
  by (simp add: redefine_stage_def each_append split: prod.splits option.splits)


lemma fold_console:
  assumes step: "\<And>r out e. step (r, out) e = (fst (step (r, []) e), out @ snd (step (r, []) e))"
  shows "fold (\<lambda>e s. step s e) es (r, out) =
           (fst (fold (\<lambda>e s. step s e) es (r, [])),
            out @ snd (fold (\<lambda>e s. step s e) es (r, [])))"
proof (induction es arbitrary: r out)
  case Nil
  show ?case by simp
next
  case (Cons e es)
  obtain r1 w1 where s1: "step (r, []) e = (r1, w1)" by (cases "step (r, []) e")
  have s2: "step (r, out) e = (r1, out @ w1)"
    using step [of r out e] by (simp add: s1)
  show ?case
    using Cons.IH [of r1 "out @ w1"] Cons.IH [of r1 w1] by (simp add: s1 s2)
qed

lemma drop_step_console:
  "drop_step table lk (r, out) e =
     (fst (drop_step table lk (r, []) e), out @ snd (drop_step table lk (r, []) e))"
  by (auto simp: drop_step_def split: prod.splits)

lemma drop_stage_console:
  "drop_stage table lk (r, out) =
     (fst (drop_stage table lk (r, [])), out @ snd (drop_stage table lk (r, [])))"
  unfolding drop_stage_def fst_conv
  by (rule fold_console [where step = "drop_step table lk"]) (rule drop_step_console)







lemma drop_fold_fst:
  "fst (fold (\<lambda>e s'. drop_step table lk s' e) es (r, out)) =
     AList.restrict (- {k. \<exists>v. (k, v) \<in> set es \<and> isArray v \<and> \<not> links_lookup_truthy lk k}) r"
proof (induction es arbitrary: r out)
  case Nil
  show ?case by (simp add: AList.restrict_eq)
next
  case (Cons e es)
  obtain k v where e: "e = (k, v)" by (cases e)
  show ?case
  proof (cases "isArray v \<and> \<not> links_lookup_truthy lk k")
    case True
    then have "drop_step table lk (r, out) e = (delete_prop r k, out @ [WarnDropArray table k])"
      by (simp add: drop_step_def e)
    then show ?thesis
      using True
      by (auto simp: Cons.IH e delete_prop_def AList.restrict_eq AList.delete_eq
          intro!: filter_cong)
  next
    case False
    then have "drop_step table lk (r, out) e = (r, out)"
      by (auto simp: drop_step_def e)
    then show ?thesis
      using False
      by (auto simp: Cons.IH e AList.restrict_eq intro!: filter_cong)
  qed
qed


lemma drop_stage_no_unlinked_array:
  assumes "\<not> links_lookup_truthy lk key"
  shows "\<not> isArray (get_prop (fst (drop_stage table lk (r, out))) key)"
proof -
  let ?D = "{k. \<exists>v. (k, v) \<in> set r \<and> isArray v \<and> \<not> links_lookup_truthy lk k}"
  have eq: "fst (drop_stage table lk (r, out)) = AList.restrict (- ?D) r"
    by (simp add: drop_stage_def drop_fold_fst)
  show ?thesis
  proof (cases "key \<in> ?D")
    case True
    then show ?thesis by (simp add: eq get_prop_def restr_conv')
  next
    case False
    then have g: "get_prop (AList.restrict (- ?D) r) key = get_prop r key"
      by (simp add: get_prop_def restr_conv')
    show ?thesis
    proof
      assume "isArray (get_prop (fst (drop_stage table lk (r, out))) key)"
      then have arr: "isArray (get_prop r key)" by (simp add: eq g)
      then obtain v where "map_of r key = Some v" "isArray v"
        by (auto simp: get_prop_def split: option.splits)
      then have "(key, v) \<in> set r" by (auto dest: map_of_SomeD)
      with \<open>isArray v\<close> assms have "key \<in> ?D" by blast
      with False show False by contradiction
    qed
  qed
qed

lemma prepare_row_console:
  "prepare_row table options reg row out =
     (case prepare_row table options reg row [] of (err, r, w) \<Rightarrow> (err, r, out @ w))"
proof -
  let ?r0 = "rename_stage (rename options) row"
  obtain e1 r1 w1 where a: "redefine_stage table (redefine options) ?r0 [] = (e1, r1, w1)"
    by (cases "redefine_stage table (redefine options) ?r0 []")
  have a': "redefine_stage table (redefine options) ?r0 out = (e1, r1, out @ w1)"
    using redefine_stage_console [of table "redefine options" ?r0 out] by (simp add: a)
  show ?thesis
  proof (cases e1)
    case (Some err)
    then show ?thesis by (simp add: prepare_row_def a a')
  next
    case None
    obtain e2 r2 w2 where b: "fk_stage table reg (foreignKeys options) r1 [] = (e2, r2, w2)"
      by (cases "fk_stage table reg (foreignKeys options) r1 []")
    have b': "fk_stage table reg (foreignKeys options) r1 w = (e2, r2, w @ w2)" for w
      using fk_stage_console [of table reg "foreignKeys options" r1 w] by (simp add: b)
    show ?thesis
    proof (cases e2)
      case (Some err)
      with None show ?thesis using b' [of w1] b' [of "out @ w1"] by (simp add: prepare_row_def a a')
    next
      case n2: None
      obtain r3 w3 where c: "drop_stage table (links options) (r2, []) = (r3, w3)"
        by (cases "drop_stage table (links options) (r2, [])")
      have c': "drop_stage table (links options) (r2, w) = (r3, w @ w3)" for w
        using drop_stage_console [of table "links options" r2 w] by (simp add: c)
      show ?thesis
        using None n2 b' [of w1] b' [of "out @ w1"] c' [of "w1 @ w2"] c' [of "out @ w1 @ w2"]
        by (simp add: prepare_row_def a a')
    qed
  qed
qed

lemma prepare_row_success:
  assumes "prepare_row table options reg row out = (None, r', out')"
  shows "\<exists>r1 out1 r2 out2.
           redefine_stage table (redefine options) (rename_stage (rename options) row) out
             = (None, r1, out1) \<and>
           fk_stage table reg (foreignKeys options) r1 out1 = (None, r2, out2) \<and>
           drop_stage table (links options) (r2, out2) = (r', out')"
  using assms by (auto simp: prepare_row_def split: prod.splits option.splits)

lemma prepare_rows_console:
  "prepare_rows table options reg rows out =
     (case prepare_rows table options reg rows [] of (err, rs, w) \<Rightarrow> (err, rs, out @ w))"
proof (induction rows arbitrary: out)
  case Nil
  show ?case by simp
next
  case (Cons row rows)
  obtain e1 r1 w1 where a: "prepare_row table options reg row [] = (e1, r1, w1)"
    by (cases "prepare_row table options reg row []")
  have a': "prepare_row table options reg row out = (e1, r1, out @ w1)"
    using prepare_row_console [of table options reg row out] by (simp add: a)
  show ?case
  proof (cases e1)
    case (Some err)
    then show ?thesis by (simp add: a a')
  next
    case None
    show ?thesis
      using Cons.IH [of "out @ w1"] Cons.IH [of w1]
      by (simp add: a a' None split: prod.splits)
  qed
qed

lemma prepare_rows_success:
  assumes "prepare_rows table options reg rows out = (None, prepared, out')"
  shows "prepared = map (\<lambda>row. fst (snd (prepare_row table options reg row []))) rows \<and>
         (\<forall>row \<in> set rows. fst (prepare_row table options reg row []) = None) \<and>
         out' = out @ concat (map (\<lambda>row. snd (snd (prepare_row table options reg row []))) rows)"
  using assms
proof (induction rows arbitrary: out prepared)
  case Nil
  then show ?case by simp
next
  case (Cons row rows)
  obtain e1 r1 w1 where a: "prepare_row table options reg row [] = (e1, r1, w1)"
    by (cases "prepare_row table options reg row []")
  have a': "prepare_row table options reg row out = (e1, r1, out @ w1)"
    using prepare_row_console [of table options reg row out] by (simp add: a)
  from Cons.prems have e1: "e1 = None" by (cases e1) (simp_all add: a')
  obtain e2 rs w2 where b: "prepare_rows table options reg rows (out @ w1) = (e2, rs, w2)"
    by (cases "prepare_rows table options reg rows (out @ w1)")
  from Cons.prems have e2: "e2 = None" and p: "prepared = r1 # rs" and o: "out' = w2"
    by (simp_all add: a' e1 b)
  from Cons.IH [of "out @ w1" rs] b e2 o show ?case
    by (simp add: a e1 p)
qed

lemma length_prepare_rows:
  "prepare_rows table options reg rows out = (None, prepared, out') \<Longrightarrow>
   length prepared = length rows"
  by (drule prepare_rows_success) simp

lemma prepared_of_success:
  "prepare_rows table options reg rows out = (None, prepared, out') \<Longrightarrow>
   prepared_of table options reg rows = prepared"
  using prepare_rows_console [of table options reg rows out]
  by (auto simp: prepared_of_def split: prod.splits option.splits)


lemma redefine_step_present:
  "has_own r field \<Longrightarrow>
   redefine_step table r out (field, fn) =
     (case fn (get_prop r field) r of
        Inr v \<Rightarrow> (None, set_prop r field v, out)
      | Inl ex \<Rightarrow>
          (case error_message ex of
             Some m \<Rightarrow> (None, r, out @ [WarnRedefineFail table field (js_String m)])
           | None \<Rightarrow> (Some (TypeError (''Cannot read properties of '' @ js_String ex)), r, out)))"
  by (simp add: redefine_step_def)

lemma map_ids_TheMap:
  "map_ids (TheMap m) ids =
     Inr (map (\<lambda>i. if nullish i then Null else map_get m (JStr (js_String i))) ids)"
  by (induction ids) (simp_all add: fkMap_get_def)







text \<open>
  The statement of lines 230-235 removes every array-valued field for which
  \<^verbatim>\<open>links[key]\<close> is falsy.
\<close>

lemma unlinked_arrays_are_dropped:
  assumes "\<not> links_lookup_truthy (links options) key"
    and "prepare_row table options reg row out = (None, r', out')"
  shows "\<not> isArray (get_prop r' key)"
proof -
  from prepare_row_success [OF assms(2)] obtain r2 out2 where
    "drop_stage table (links options) (r2, out2) = (r', out')"
    by blast
  then show ?thesis
    using drop_stage_no_unlinked_array [OF assms(1), of table r2 out2] by simp
qed

text \<open>
  The transformation throws in two cases only: the handler of the redefine stage, for a
  mapper that has thrown \<^verbatim>\<open>null\<close> or \<^verbatim>\<open>undefined\<close>; and
  \<^verbatim>\<open>fkMap.get\<close>, for a collection name under which line 201 finds a property
  inherited from \<^verbatim>\<open>Object.prototype\<close>.
\<close>

lemma redefine_step_throws:
  assumes "fst (redefine_step table r out (field, fn)) = Some err"
  shows "\<exists>ex. has_own r field \<and> fn (get_prop r field) r = Inl ex \<and> nullish ex"
proof -
  from assms have own: "has_own r field"
    by (auto simp: redefine_step_def split: if_splits)
  from assms own obtain ex where ex: "fn (get_prop r field) r = Inl ex"
    by (cases "fn (get_prop r field) r") (auto simp: redefine_step_def)
  from assms own ex have "error_message ex = None"
    by (cases "error_message ex") (auto simp: redefine_step_def)
  then have "nullish ex"
    by (cases ex) (simp_all add: error_message_def)
  with own ex show ?thesis by blast
qed

lemma fk_step_throws:
  assumes "fst (fk_step table reg r out (field, coll)) = Some err"
  shows "registry_lookup reg coll = Inherited"
proof (cases "registry_lookup reg coll")
  case NoMap
  with assms show ?thesis
    by (auto simp: fk_step_eq fk_resolve_def split: if_splits)
next
  case Inherited
  then show ?thesis .
next
  case (TheMap m)
  with assms show ?thesis
    by (auto simp: fk_step_eq fk_resolve_def Let_def map_ids_TheMap fkMap_get_def
        split: if_splits jsval.splits)
qed

lemma redefine_exception_leaves_callback:
  assumes "fst (redefine_stage table (redefine options) (rename_stage (rename options) row) out)
             = Some err"
  shows "fst (prepare_rows table options reg (row # rows) out) = Some err"
proof -
  obtain r1 out1 where
    "redefine_stage table (redefine options) (rename_stage (rename options) row) out
       = (Some err, r1, out1)"
    using assms
    by (cases "redefine_stage table (redefine options) (rename_stage (rename options) row) out")
      auto
  then show ?thesis by (simp add: prepare_row_def)
qed

text \<open>
  What an entry of \<^verbatim>\<open>redefine\<close> does to a field the record has, once the earlier
  entries have been processed without an exception: the field gets the result of the
  mapper; or the mapper throws a value whose \<^verbatim>\<open>message\<close> can be read, the handler
  prints it, and the field keeps its value; in both cases the statement goes on with the
  next entry.  Or the mapper throws \<^verbatim>\<open>null\<close> or \<^verbatim>\<open>undefined\<close>, and the stage
  ends with the TypeError of the handler.
\<close>

lemma redefine_entry_replaces_or_warns:
  assumes "rd = pre @ (field, fn) # post"
    and "field \<notin> fst ` set pre"
    and "has_own r field"
    and "redefine_stage table pre r out = (None, ri, outi)"
  shows "get_prop ri field = get_prop r field \<and>
         (\<forall>v. fn (get_prop r field) ri = Inr v \<longrightarrow>
            redefine_stage table rd r out = redefine_stage table post (set_prop ri field v) outi) \<and>
         (\<forall>ex m. fn (get_prop r field) ri = Inl ex \<and> error_message ex = Some m \<longrightarrow>
            redefine_stage table rd r out =
              redefine_stage table post ri (outi @ [WarnRedefineFail table field (js_String m)])) \<and>
         (\<forall>ex. fn (get_prop r field) ri = Inl ex \<and> nullish ex \<longrightarrow>
            redefine_stage table rd r out =
              (Some (TypeError (''Cannot read properties of '' @ js_String ex)), ri, outi))"
proof -
  have old: "get_prop ri field = get_prop r field"
    using redefine_stage_other [OF assms(2), of table r out] by (simp add: assms(4))
  have own: "has_own ri field"
    using assms(3) redefine_stage_keys [of table pre r out] by (simp add: has_own_def assms(4))
  have split: "redefine_stage table rd r out =
                 (case redefine_step table ri outi (field, fn) of
                    (Some err, r', out') \<Rightarrow> (Some err, r', out')
                  | (None, r', out') \<Rightarrow> redefine_stage table post r' out')"
    unfolding assms(1)
    by (subst redefine_stage_append)
      (simp add: assms(4), simp add: redefine_stage_def split: prod.splits option.splits)
  note step = redefine_step_present [OF own, of table outi fn, unfolded old]
  have nm: "error_message ex = None" if "nullish ex" for ex
    using that by (cases ex) (simp_all add: error_message_def)
  show ?thesis
    using old by (auto simp: split step nm)
qed

subsection \<open>Schema safeguard\<close>

lemma column_text_driver:
  "driver_text db' = driver_text db \<Longrightarrow> column_text db' v = column_text db v"
  by (simp add: column_text_def split: jsval.splits)

lemma mongo_text_driver:
  "driver_text db' = driver_text db \<Longrightarrow> mongo_text db' r = mongo_text db r"
  using column_text_driver [of db' db] by (simp add: mongo_text_def)



lemma schema_check_out: "set out \<subseteq> set (snd (schema_check db table out))"
  by (auto simp: schema_check_def split: sum.splits)


lemma begin_transaction_id: "\<not> aborted db \<Longrightarrow> begin_transaction db = db"
  by (simp add: begin_transaction_def)



subsection \<open>The existence query\<close>

lemma select_whereIn_InrD:
  assumes "select_whereIn db table mongoIds = Inr existing"
  shows "\<exists>t. map_of (tables db) table = Some t \<and> has_mongo_id t \<and>
           existing = List.map_filter
                      (\<lambda>(i, r). case mongo_text db r of
                                  None \<Rightarrow> None
                                | Some s \<Rightarrow>
                                    if Some s \<in> set (map (column_text db) mongoIds)
                                    then Some (i, JStr s) else None)
                      (stored t)"
proof (cases "aborted db")
  case True
  with assms show ?thesis by (simp add: select_whereIn_def)
next
  case na: False
  show ?thesis
  proof (cases "map_of (tables db) table")
    case None
    with assms na show ?thesis by (simp add: select_whereIn_def)
  next
    case (Some t)
    show ?thesis
    proof (cases "has_mongo_id t")
      case True
      with assms na Some show ?thesis by (simp add: select_whereIn_def)
    next
      case False
      with assms na Some show ?thesis by (simp add: select_whereIn_def)
    qed
  qed
qed


lemma set_map_filter_eq: "set (List.map_filter f xs) = {y. \<exists>x \<in> set xs. f x = Some y}"
  by (induction xs) (auto split: option.splits)

lemma select_whereIn_keys:
  assumes "select_whereIn db table mongoIds = Inr existing"
  shows "k \<in> snd ` set existing \<longleftrightarrow>
           (\<exists>s. k = JStr s \<and> Some s \<in> set (map (mongo_text db) (table_rows db table))
                \<and> Some s \<in> set (map (column_text db) mongoIds))"
proof -
  let ?f = "\<lambda>(i, r). case mongo_text db r of
                        None \<Rightarrow> None
                      | Some s \<Rightarrow>
                          if Some s \<in> set (map (column_text db) mongoIds)
                          then Some (i, JStr s) else None"
  from select_whereIn_InrD [OF assms] obtain t where
    t: "map_of (tables db) table = Some t" and ex: "existing = List.map_filter ?f (stored t)"
    by blast
  have rows: "table_rows db table = map snd (stored t)"
    by (simp add: table_rows_def t)
  show ?thesis
  proof
    assume "k \<in> snd ` set existing"
    then obtain i where "(i, k) \<in> set existing" by auto
    then obtain x where x: "x \<in> set (stored t)" "?f x = Some (i, k)"
      by (auto simp: ex set_map_filter_eq)
    obtain j r where xr: "x = (j, r)" by (cases x)
    from x(2) obtain s where s: "mongo_text db r = Some s"
      "Some s \<in> set (map (column_text db) mongoIds)" "k = JStr s"
      by (auto simp: xr split: option.splits if_splits)
    from x(1) xr have "r \<in> set (table_rows db table)" by (force simp: rows)
    with s show "\<exists>s. k = JStr s \<and> Some s \<in> set (map (mongo_text db) (table_rows db table))
                \<and> Some s \<in> set (map (column_text db) mongoIds)"
      by (auto simp: image_iff intro!: exI [of _ s] bexI [of _ r])
  next
    assume "\<exists>s. k = JStr s \<and> Some s \<in> set (map (mongo_text db) (table_rows db table))
                \<and> Some s \<in> set (map (column_text db) mongoIds)"
    then obtain s where s: "k = JStr s" "Some s \<in> set (map (mongo_text db) (table_rows db table))"
      "Some s \<in> set (map (column_text db) mongoIds)" by blast
    from s(2) obtain j r where jr: "(j, r) \<in> set (stored t)" "mongo_text db r = Some s"
      by (auto simp: rows)
    have "?f (j, r) = Some (j, k)" using jr(2) s(1,3) by simp
    with jr(1) have "(j, k) \<in> set existing"
      unfolding ex set_map_filter_eq by blast
    then show "k \<in> snd ` set existing" by force
  qed
qed

lemma existingMap_fold_has:
  "map_has (fold (\<lambda>(i, m) em. map_set em m (JNum i)) existing em0) k \<longleftrightarrow>
     k \<in> snd ` set existing \<or> map_has em0 k"
  by (induction existing arbitrary: em0) (auto simp: map_has_set)

lemma existingMap_has: "map_has (existingMap_of existing) k \<longleftrightarrow> k \<in> snd ` set existing"
  by (simp add: existingMap_of_def existingMap_fold_has) (simp add: map_has_def)

subsection \<open>Console and tables along the run\<close>


lemma link_elements_out:
  "set out \<subseteq> set (snd (link_elements cfg reg raw selfSqlId elems linkRows out))"
proof (induction elems arbitrary: linkRows out)
  case Nil
  show ?case by simp
next
  case (Cons e elems)
  show ?case
    using Cons.IH [where linkRows = linkRows and out = "out @ [WarnLinkSkipMissingFK e]"]
      Cons.IH [where out = out]
    by (auto simp: Let_def split: sum.splits)
qed

lemma gather_links_out:
  "set out \<subseteq> set (snd (gather_links arrayField cfg reg self rows linkRows out))"
proof (induction rows arbitrary: linkRows out)
  case Nil
  show ?case by simp
next
  case (Cons raw rows)
  show ?case
  proof (cases "get_prop raw arrayField")
    case (JArr elems)
    show ?thesis
    proof (cases "elems = []")
      case True
      with JArr show ?thesis using Cons.IH [where linkRows = linkRows and out = out] by simp
    next
      case False
      let ?self = "registry_get reg self (JStr (js_String (get_prop raw ''mongo_id'')))"
      show ?thesis
      proof (cases "truthy ?self")
        case f: False
        with JArr False show ?thesis
          using Cons.IH [where linkRows = linkRows
              and out = "out @ [WarnLinkSkipNoSqlId self (get_prop raw ''mongo_id'')]"]
          by (auto simp: Let_def)
      next
        case t: True
        obtain res out' where le: "link_elements cfg reg raw ?self elems linkRows out = (res, out')"
          by (cases "link_elements cfg reg raw ?self elems linkRows out")
        have sub: "set out \<subseteq> set out'"
          using link_elements_out [of out cfg reg raw ?self elems linkRows] by (simp add: le)
        show ?thesis
        proof (cases res)
          case (Inl msg)
          with JArr False t le sub show ?thesis by (simp add: Let_def)
        next
          case (Inr linkRows')
          with JArr False t le sub show ?thesis
            using Cons.IH [where linkRows = linkRows' and out = out'] by (auto simp: Let_def)
        qed
      qed
    qed
  qed (use Cons.IH [where linkRows = linkRows and out = out] in simp_all)
qed

lemma materialize_links_out:
  "set out \<subseteq> set (snd (materialize_links table self reg rows lks trx out))"
proof (induction lks arbitrary: trx out)
  case Nil
  show ?case by simp
next
  case (Cons lk lks)
  obtain arrayField cfg where lk: "lk = (arrayField, cfg)" by (cases lk)
  obtain res out1 where g: "gather_links arrayField cfg reg self rows [] out = (res, out1)"
    by (cases "gather_links arrayField cfg reg self rows [] out")
  have sub: "set out \<subseteq> set out1"
    using gather_links_out [of out arrayField cfg reg self rows "[]"] by (simp add: g)
  show ?case
  proof (cases res)
    case (Inl msg)
    with lk g sub show ?thesis by simp
  next
    case (Inr linkRows)
    show ?thesis
    proof (cases "linkRows = []")
      case True
      with lk g Inr sub show ?thesis
        using Cons.IH [where trx = trx and out = out1] by auto
    next
      case False
      show ?thesis
      proof (cases "insert_returning trx (linkTable cfg) linkRows")
        case (Inl msg)
        let ?o = "out1 @ [WarnLinkInsert (linkTable cfg) msg,
                          LogInsertedLinks table (linkTable cfg) (length linkRows)]"
        have "set out \<subseteq> set ?o" using sub by auto
        also have "\<dots> \<subseteq> set (snd (materialize_links table self reg rows lks
                                    (trx\<lparr>aborted := True\<rparr>) ?o))"
          by (rule Cons.IH)
        finally show ?thesis using lk g Inr False Inl by simp
      next
        case ins: (Inr p)
        obtain trx1 ret where p: "p = (trx1, ret)" by (cases p)
        let ?o = "out1 @ [LogInsertedLinks table (linkTable cfg) (length linkRows)]"
        have "set out \<subseteq> set ?o" using sub by auto
        also have "\<dots> \<subseteq> set (snd (materialize_links table self reg rows lks trx1 ?o))"
          by (rule Cons.IH)
        finally show ?thesis using lk g Inr False ins p by simp
      qed
    qed
  qed
qed

lemma materialize_links_table_rows:
  "fst (materialize_links table self reg rows lks trx out) = Inr trx' \<Longrightarrow>
   set (table_rows trx t) \<subseteq> set (table_rows trx' t)"
proof (induction lks arbitrary: trx out)
  case Nil
  then show ?case by simp
next
  case (Cons lk lks)
  obtain arrayField cfg where lk: "lk = (arrayField, cfg)" by (cases lk)
  obtain res out1 where g: "gather_links arrayField cfg reg self rows [] out = (res, out1)"
    by (cases "gather_links arrayField cfg reg self rows [] out")
  show ?case
  proof (cases res)
    case (Inl msg)
    with Cons.prems lk g show ?thesis by simp
  next
    case (Inr linkRows)
    show ?thesis
    proof (cases "linkRows = []")
      case True
      with Cons.prems lk g Inr show ?thesis using Cons.IH [where trx = trx and out = out1] by simp
    next
      case False
      show ?thesis
      proof (cases "insert_returning trx (linkTable cfg) linkRows")
        case (Inl msg)
        with Cons.prems lk g Inr False show ?thesis
          using Cons.IH [where trx = "trx\<lparr>aborted := True\<rparr>"
              and out = "out1 @ [WarnLinkInsert (linkTable cfg) msg,
                                 LogInsertedLinks table (linkTable cfg) (length linkRows)]"]
          by (simp add: table_rows_def)
      next
        case ins: (Inr p)
        obtain trx1 ret where p: "p = (trx1, ret)" by (cases p)
        have a: "set (table_rows trx t) \<subseteq> set (table_rows trx1 t)"
          using insert_returning_table_rows [of trx "linkTable cfg" linkRows trx1 ret t] ins p
          by auto
        have b: "set (table_rows trx1 t) \<subseteq> set (table_rows trx' t)"
          using Cons.prems lk g Inr False ins p
            Cons.IH [where trx = trx1
              and out = "out1 @ [LogInsertedLinks table (linkTable cfg) (length linkRows)]"]
          by simp
        from a b show ?thesis by blast
      qed
    qed
  qed
qed

subsection \<open>The whole call\<close>



text \<open>A call on a non-empty batch that returns has gone through every step.\<close>

lemma putToPostgres_success:
  assumes "rows \<noteq> []" and "thrown (putToPostgres knex table rows options reg self) = None"
  shows "\<exists>prepared out1 existing trx2 reg2 out2 out3 db'.
           prepare_rows table options (ensure_map reg self) rows
             (snd (schema_check (begin_transaction knex) table [])) = (None, prepared, out1) \<and>
           select_whereIn (fst (schema_check (begin_transaction knex) table [])) table
             (mongoIds_of prepared) = Inr existing \<and>
           upsert (fst (schema_check (begin_transaction knex) table [])) table
             (ensure_map reg self) self (existingMap_of existing) prepared out1
             = (Inr trx2, reg2, out2) \<and>
           materialize_links table self reg2 rows (links options) trx2 out2 = (Inr db', out3) \<and>
           registry_after (putToPostgres knex table rows options reg self) = reg2 \<and>
           console (putToPostgres knex table rows options reg self) = out3 \<and>
           rolled_back (putToPostgres knex table rows options reg self) = aborted db' \<and>
           db_after (putToPostgres knex table rows options reg self)
             = (if aborted db' then knex else db')"
proof -
  let ?reg0 = "ensure_map reg self"
  obtain trx1 out0 where sc: "schema_check (begin_transaction knex) table [] = (trx1, out0)"
    by (cases "schema_check (begin_transaction knex) table []")
  obtain err prepared out1 where
    pr: "prepare_rows table options ?reg0 rows out0 = (err, prepared, out1)"
    by (cases "prepare_rows table options ?reg0 rows out0")
  show ?thesis
  proof (cases err)
    case (Some e)
    with assms show ?thesis by (simp add: putToPostgres_def transaction_body_def sc pr)
  next
    case None
    show ?thesis
    proof (cases "select_whereIn trx1 table (mongoIds_of prepared)")
      case (Inl msg)
      with assms show ?thesis by (simp add: putToPostgres_def transaction_body_def sc pr None)
    next
      case (Inr existing)
      obtain res reg2 out2 where
        up: "upsert trx1 table ?reg0 self (existingMap_of existing) prepared out1
               = (res, reg2, out2)"
        by (cases "upsert trx1 table ?reg0 self (existingMap_of existing) prepared out1")
      show ?thesis
      proof (cases res)
        case (Inl e)
        with assms show ?thesis
          by (simp add: putToPostgres_def transaction_body_def sc pr None Inr up)
      next
        case r: (Inr trx2)
        obtain res3 out3 where
          ml: "materialize_links table self reg2 rows (links options) trx2 out2 = (res3, out3)"
          by (cases "materialize_links table self reg2 rows (links options) trx2 out2")
        show ?thesis
        proof (cases res3)
          case (Inl e)
          with assms show ?thesis
            by (simp add: putToPostgres_def transaction_body_def sc pr None Inr up r ml)
        next
          case d: (Inr db')
          with assms(1) show ?thesis
            by (simp add: putToPostgres_def transaction_body_def sc pr None Inr up r ml)
        qed
      qed
    qed
  qed
qed

lemma transformation_exception_aborts_call:
  assumes "rows \<noteq> []"
    and "fst (prepare_rows table options (ensure_map reg self) rows []) = Some err"
  shows "thrown (putToPostgres knex table rows options reg self) = Some err \<and>
         rolled_back (putToPostgres knex table rows options reg self) \<and>
         db_after (putToPostgres knex table rows options reg self) = knex \<and>
         registry_after (putToPostgres knex table rows options reg self) = ensure_map reg self"
proof -
  let ?reg0 = "ensure_map reg self"
  obtain trx1 out0 where sc: "schema_check (begin_transaction knex) table [] = (trx1, out0)"
    by (cases "schema_check (begin_transaction knex) table []")
  obtain copies w where p0: "prepare_rows table options ?reg0 rows [] = (Some err, copies, w)"
    using assms(2) by (cases "prepare_rows table options ?reg0 rows []") auto
  have pr: "prepare_rows table options ?reg0 rows out0 = (Some err, copies, out0 @ w)"
    using prepare_rows_console [of table options ?reg0 rows out0] by (simp add: p0)
  show ?thesis
    using assms(1) by (simp add: putToPostgres_def transaction_body_def sc pr)
qed

text \<open>
  A second run also inserts again when the first one has written nothing.  A call
  returns normally after a link insert has failed, for the error is caught (lines
  303-307); its transaction is aborted by then, and the commit rolls it back.  Here the
  link table accepts no row: the call returns, the registry holds ids for both records,
  and the table is empty.
\<close>

lemma caught_link_failure_rolls_back:
  "thrown (putToPostgres ex_db_awards_closed ''employees'' ex_rows_bob ex_award_links
             ex_reg_awards ''employees'') = None \<and>
   rolled_back (putToPostgres ex_db_awards_closed ''employees'' ex_rows_bob ex_award_links
                  ex_reg_awards ''employees'') \<and>
   console (putToPostgres ex_db_awards_closed ''employees'' ex_rows_bob ex_award_links
              ex_reg_awards ''employees'')
     = [LogInserted ''employees'' 2,
        WarnLinkInsert ''employees_awards'' ''row violates a column constraint'',
        LogInsertedLinks ''employees'' ''employees_awards'' 2] \<and>
   registry_get
     (registry_after (putToPostgres ex_db_awards_closed ''employees'' ex_rows_bob ex_award_links
                        ex_reg_awards ''employees''))
     ''employees'' (JStr ''e2'') = JNum 1 \<and>
   table_rows
     (db_after (putToPostgres ex_db_awards_closed ''employees'' ex_rows_bob ex_award_links
                  ex_reg_awards ''employees''))
     ''employees'' = []"
  by code_simp

subsection \<open>What a committed call leaves behind\<close>

lemma insert_returning_driver:
  "insert_returning db table rs = Inr (db', ret) \<Longrightarrow> driver_text db' = driver_text db"
  by (drule insert_returning_InrD) auto

lemma insert_returning_hasColumn:
  assumes "insert_returning db table rs = Inr (db', ret)"
  shows "hasColumn db' t = hasColumn db t"
proof -
  from insert_returning_InrD [OF assms] obtain tb where
    t: "map_of (tables db) table = Some tb" and
    db': "db' = db\<lparr>tables := AList.update table
                    (tb\<lparr>next_id := next_id tb + int (length rs),
                        stored := stored tb
                          @ zip (map (\<lambda>k. next_id tb + int k) [0 ..< length rs]) rs\<rparr>)
                    (tables db)\<rparr>"
    by blast
  show ?thesis by (simp add: hasColumn_def db' update_conv' t)
qed

lemma upsert_InrD:
  assumes "fst (upsert trx table reg self em prepared out) = Inr trx'"
  shows "(toInsert_of em prepared = [] \<and> trx' = trx) \<or>
         (\<exists>ret. insert_returning trx table (toInsert_of em prepared) = Inr (trx', ret))"
  using assms by (auto simp: upsert_def Let_def split: sum.splits if_splits)

lemma upsert_driver:
  "fst (upsert trx table reg self em prepared out) = Inr trx' \<Longrightarrow>
   driver_text trx' = driver_text trx"
  by (drule upsert_InrD) (auto dest: insert_returning_driver)

lemma upsert_hasColumn:
  "fst (upsert trx table reg self em prepared out) = Inr trx' \<Longrightarrow>
   hasColumn trx' t = hasColumn trx t"
  by (drule upsert_InrD) (auto dest: insert_returning_hasColumn)

text \<open>What the link stage leaves unchanged.\<close>

lemma insert_returning_aborted:
  "insert_returning db table rs = Inr (db', ret) \<Longrightarrow> \<not> aborted db \<and> \<not> aborted db'"
  by (auto simp: insert_returning_def Let_def split: option.splits if_splits)

lemma upsert_aborted:
  "fst (upsert trx table reg self em prepared out) = Inr trx' \<Longrightarrow>
   aborted trx' = aborted trx"
  by (drule upsert_InrD) (auto dest: insert_returning_aborted)

lemma materialize_links_invariant:
  assumes step: "\<And>db tb rs db' ret. insert_returning db tb rs = Inr (db', ret) \<Longrightarrow>
                   tb \<in> linkTable ` snd ` set lks \<Longrightarrow> P db' = P db"
    and ab: "\<And>db. P (db\<lparr>aborted := True\<rparr>) = P db"
    and "fst (materialize_links table self reg rows lks trx out) = Inr trx'"
  shows "P trx' = P trx"
  using assms
proof (induction lks arbitrary: trx out)
  case Nil
  then show ?case by simp
next
  case (Cons lk lks)
  obtain arrayField cfg where lk: "lk = (arrayField, cfg)" by (cases lk)
  obtain res out1 where g: "gather_links arrayField cfg reg self rows [] out = (res, out1)"
    by (cases "gather_links arrayField cfg reg self rows [] out")
  have step': "\<And>db tb rs db' ret. insert_returning db tb rs = Inr (db', ret) \<Longrightarrow>
                   tb \<in> linkTable ` snd ` set lks \<Longrightarrow> P db' = P db"
    using Cons.prems(1) by auto
  show ?case
  proof (cases res)
    case (Inl msg)
    with Cons.prems(3) lk g show ?thesis by simp
  next
    case (Inr linkRows)
    show ?thesis
    proof (cases "linkRows = []")
      case True
      with Cons.prems(3) lk g Inr show ?thesis
        using Cons.IH [OF step' Cons.prems(2), where trx = trx and out = out1] by simp
    next
      case False
      show ?thesis
      proof (cases "insert_returning trx (linkTable cfg) linkRows")
        case (Inl msg)
        with Cons.prems(3) lk g Inr False show ?thesis
          using Cons.IH [OF step' Cons.prems(2), where trx = "trx\<lparr>aborted := True\<rparr>"
              and out = "out1 @ [WarnLinkInsert (linkTable cfg) msg,
                                 LogInsertedLinks table (linkTable cfg) (length linkRows)]"]
          by (simp add: Cons.prems(2))
      next
        case ins: (Inr p)
        obtain trx1 ret where p: "p = (trx1, ret)" by (cases p)
        have a: "P trx1 = P trx"
          using Cons.prems(1) [of trx "linkTable cfg" linkRows trx1 ret] ins p lk by simp
        have b: "P trx' = P trx1"
          using Cons.prems(3) lk g Inr False ins p
            Cons.IH [OF step' Cons.prems(2), where trx = trx1
              and out = "out1 @ [LogInsertedLinks table (linkTable cfg) (length linkRows)]"]
          by simp
        from a b show ?thesis by simp
      qed
    qed
  qed
qed

lemma materialize_links_driver:
  "fst (materialize_links table self reg rows lks trx out) = Inr trx' \<Longrightarrow>
   driver_text trx' = driver_text trx"
  by (rule materialize_links_invariant [where P = driver_text])
    (auto dest: insert_returning_driver)

lemma materialize_links_hasColumn:
  "fst (materialize_links table self reg rows lks trx out) = Inr trx' \<Longrightarrow>
   hasColumn trx' t = hasColumn trx t"
  by (rule materialize_links_invariant [where P = "\<lambda>db. hasColumn db t"])
    (auto dest: insert_returning_hasColumn simp: hasColumn_def)

lemma materialize_links_other_table:
  assumes "fst (materialize_links table self reg rows lks trx out) = Inr trx'"
    and "t \<notin> linkTable ` snd ` set lks"
  shows "table_rows trx' t = table_rows trx t"
proof (rule materialize_links_invariant [where P = "\<lambda>db. table_rows db t", OF _ _ assms(1)])
  fix db tb rs db' ret
  assume "insert_returning db tb rs = Inr (db', ret)" and "tb \<in> linkTable ` snd ` set lks"
  with assms(2) show "table_rows db' t = table_rows db t"
    using insert_returning_table_rows [of db tb rs db' ret t] by auto
next
  fix db :: pg
  show "table_rows (db\<lparr>aborted := True\<rparr>) t = table_rows db t"
    by (simp add: table_rows_def)
qed

lemma schema_check_present:
  "hasColumn db table \<Longrightarrow> schema_check db table out = (db, out)"
  by (simp add: schema_check_def)

lemma schema_check_hasColumn_mono:
  "hasColumn db t \<Longrightarrow> hasColumn (fst (schema_check db table out)) t"
  by (auto simp: schema_check_def alterTable_def hasColumn_def update_conv'
      split: sum.splits option.splits if_splits)

lemma select_whereIn_hasColumn:
  "(\<exists>existing. select_whereIn db table ids = Inr existing)
     \<longleftrightarrow> hasColumn db table \<and> \<not> aborted db"
  by (auto simp: select_whereIn_def hasColumn_def split: option.splits)

lemma upsert_nothing_to_insert:
  assumes "toInsert_of em prepared = []"
  shows "upsert trx table reg self em prepared out =
           (Inr trx,
            register_skipped reg self em (toSkip_of em prepared),
            (if toSkip_of em prepared \<noteq> []
             then out @ [LogAlreadyExist table (length (toSkip_of em prepared))] else out)
              @ [LogInserted table 0])"
  using assms by (simp add: upsert_def Let_def register_skipped_def)

lemma existingMap_fold_get:
  "map_has (fold (\<lambda>(i, m) em. map_set em m (JNum i)) existing em0) k \<Longrightarrow>
   (\<exists>i. (i, k) \<in> set existing
         \<and> map_get (fold (\<lambda>(i, m) em. map_set em m (JNum i)) existing em0) k = JNum i)
   \<or> (k \<notin> snd ` set existing
       \<and> map_get (fold (\<lambda>(i, m) em. map_set em m (JNum i)) existing em0) k = map_get em0 k)"
proof (induction existing arbitrary: em0)
  case Nil
  then show ?case by simp
next
  case (Cons e existing)
  obtain j m where e: "e = (j, m)" by (cases e)
  from Cons.prems have
    h: "map_has (fold (\<lambda>(i, m) em. map_set em m (JNum i)) existing (map_set em0 m (JNum j))) k"
    by (simp add: e)
  let ?F = "fold (\<lambda>(i, m) em. map_set em m (JNum i)) existing (map_set em0 m (JNum j))"
  have F: "fold (\<lambda>(i, m) em. map_set em m (JNum i)) (e # existing) em0 = ?F"
    by (simp add: e)
  from Cons.IH [OF h] consider
    (a) i where "(i, k) \<in> set existing" "map_get ?F k = JNum i"
    | (b) "k \<notin> snd ` set existing" "map_get ?F k = map_get (map_set em0 m (JNum j)) k"
    by blast
  then show ?case
  proof cases
    case a
    then have "(i, k) \<in> set (e # existing) \<and> map_get ?F k = JNum i" by simp
    then show ?thesis unfolding F by blast
  next
    case b
    show ?thesis
    proof (cases "k = m")
      case True
      with b have "(j, k) \<in> set (e # existing) \<and> map_get ?F k = JNum j"
        by (simp add: e map_get_set)
      then show ?thesis unfolding F by blast
    next
      case False
      with b have "k \<notin> snd ` set (e # existing) \<and> map_get ?F k = map_get em0 k"
        by (simp add: e map_get_set)
      then show ?thesis unfolding F by blast
    qed
  qed
qed

lemma existingMap_get:
  assumes "map_has (existingMap_of existing) k"
  shows "\<exists>i. (i, k) \<in> set existing \<and> map_get (existingMap_of existing) k = JNum i"
proof -
  from assms have k: "k \<in> snd ` set existing" by (simp add: existingMap_has)
  from existingMap_fold_get [of existing "[]" k] assms k show ?thesis
    by (auto simp: existingMap_of_def)
qed

lemma ensure_map_self: "map_of (ensure_map reg self) self \<noteq> None"
  by (auto simp: ensure_map_def map_add_def split: option.splits)


lemma column_text_JStr: "column_text db (JStr s) = Some s"
  by (simp add: column_text_def)

subsection \<open>The registry a call leaves\<close>










subsection \<open>Gathering link rows\<close>



lemma scan_registry_resolveAny:
  "scan_registry reg key = (case spec_resolveAny reg key of None \<Rightarrow> Null | Some (c, v) \<Rightarrow> v)"
proof (induction reg)
  case Nil
  show ?case by (simp add: spec_resolveAny_def)
next
  case (Cons p reg)
  obtain c m where p: "p = (c, m)" by (cases p)
  show ?case
  proof (cases "map_of m key")
    case None
    with Cons.IH show ?thesis by (simp add: p spec_resolveAny_def map_has_def)
  next
    case (Some v)
    then show ?thesis by (simp add: p spec_resolveAny_def map_has_def map_get_def)
  qed
qed

subsection \<open>The stages write through the reference of the copy only\<close>

lemma h_rename_fold:
  "r < length h \<Longrightarrow>
   fold (\<lambda>e h'. h_rename_step r h' e) rn h = h[r := rename_stage rn (h ! r)]"
proof (induction rn arbitrary: h)
  case Nil
  then show ?case by (simp add: rename_stage_def)
next
  case (Cons e rn)
  have step: "h_rename_step r h e = h[r := rename_step (h ! r) e]"
    using Cons.prems
    by (auto simp: h_rename_step_def rename_step_def h_assign_def h_delete_def
        split: prod.splits)
  show ?case
    using Cons.prems Cons.IH [of "h[r := rename_step (h ! r) e]"]
    by (simp add: step rename_stage_def)
qed

text \<open>
  A statement whose body writes through the reference \<open>r\<close> only, as the body on
  values does to the object under \<open>r\<close>, does so as a whole, whatever its outcome.
\<close>

lemma each_refines:
  assumes step: "\<And>h out e. r < length h \<Longrightarrow>
                   hbody h out e =
                     (case body (h ! r) out e of (err, x, out') \<Rightarrow> (err, h[r := x], out'))"
    and "r < length h"
  shows "each hbody es h out =
           (case each body es (h ! r) out of (err, x, out') \<Rightarrow> (err, h[r := x], out'))"
  using assms(2)
proof (induction es arbitrary: h out)
  case Nil
  then show ?case by simp
next
  case (Cons e es)
  obtain err x out1 where b: "body (h ! r) out e = (err, x, out1)"
    by (cases "body (h ! r) out e")
  have hb: "hbody h out e = (err, h[r := x], out1)"
    using step [OF Cons.prems, of out e] by (simp add: b)
  show ?case
  proof (cases err)
    case (Some e')
    then show ?thesis by (simp add: b hb)
  next
    case None
    have len: "r < length (h[r := x])" using Cons.prems by simp
    show ?thesis
      using Cons.IH [OF len, of out1] Cons.prems
      by (simp add: b hb None split: prod.splits)
  qed
qed

lemma h_redefine_step_eq:
  "r < length h \<Longrightarrow>
   h_redefine_step table r h out e =
     (case redefine_step table (h ! r) out e of (err, x, out') \<Rightarrow> (err, h[r := x], out'))"
  by (auto simp: h_redefine_step_def redefine_step_def h_assign_def
      split: prod.splits sum.splits option.splits)

lemma h_fk_step_resolve:
  "h_fk_step table reg r h out (field, coll) =
     (if has_own (h ! r) field \<and> \<not> nullish (get_prop (h ! r) field)
      then (case fk_resolve table reg field coll (get_prop (h ! r) field) of
              Inl err \<Rightarrow> (Some err, h, out)
            | Inr (v, w) \<Rightarrow> (None, h_assign h r field v, out @ w))
      else (None, h, out))"
proof (cases "has_own (h ! r) field \<and> \<not> nullish (get_prop (h ! r) field)")
  case False
  then show ?thesis by (auto simp: h_fk_step_def Let_def)
next
  case True
  show ?thesis
  proof (cases "registry_lookup reg coll = NoMap")
    case nm: True
    with True show ?thesis by (simp add: h_fk_step_def fk_resolve_def)
  next
    case nm: False
    show ?thesis
    proof (cases "get_prop (h ! r) field")
      case (JArr ids)
      with True nm show ?thesis
        by (simp add: h_fk_step_def fk_resolve_def Let_def split: sum.splits)
    qed (use True nm in \<open>simp_all add: h_fk_step_def fk_resolve_def Let_def split: sum.splits\<close>)
  qed
qed

lemma h_fk_step_eq:
  "r < length h \<Longrightarrow>
   h_fk_step table reg r h out e =
     (case fk_step table reg (h ! r) out e of (err, x, out') \<Rightarrow> (err, h[r := x], out'))"
  by (cases e)
    (simp add: h_fk_step_resolve fk_step_eq h_assign_def split: sum.splits prod.splits)

lemma h_drop_fold:
  "r < length h \<Longrightarrow>
   fold (\<lambda>e s. h_drop_step table lk r s e) es (h, out) =
     (h[r := fst (fold (\<lambda>e s'. drop_step table lk s' e) es (h ! r, out))],
      snd (fold (\<lambda>e s'. drop_step table lk s' e) es (h ! r, out)))"
proof (induction es arbitrary: h out)
  case Nil
  then show ?case by simp
next
  case (Cons e es)
  obtain r1 out1 where s: "drop_step table lk (h ! r, out) e = (r1, out1)"
    by (cases "drop_step table lk (h ! r, out) e")
  have step: "h_drop_step table lk r (h, out) e = (h[r := r1], out1)"
    using Cons.prems s
    by (auto simp: h_drop_step_def drop_step_def h_delete_def split: prod.splits if_splits)
  show ?case
    using Cons.prems Cons.IH [of "h[r := r1]" out1]
    by (simp add: step s)
qed

lemma h_prepare_row_eq:
  assumes "row < length h"
  shows "h_prepare_row table options reg h row out =
           (case prepare_row table options reg (h ! row) out of
              (err, x, out') \<Rightarrow> (err, h @ [x], length h, out'))"
proof -
  let ?h0 = "h @ [h ! row]"
  let ?r = "length h"
  have r: "?r < length ?h0" by simp
  have at: "?h0 ! ?r = h ! row" by simp
  have upd: "?h0[?r := x] = h @ [x]" for x by simp
  have r': "?r < length (h @ [x])" for x :: obj by simp
  have at': "(h @ [x]) ! ?r = x" for x :: obj by simp
  have upd': "(h @ [x])[?r := y] = h @ [y]" for x y :: obj by simp
  let ?r1 = "rename_stage (rename options) (h ! row)"
  have a: "fold (\<lambda>e h'. h_rename_step ?r h' e) (rename options) ?h0 = h @ [?r1]"
    using h_rename_fold [OF r, of "rename options"] by (simp only: at upd)
  obtain e2 r2 out2 where s2: "redefine_stage table (redefine options) ?r1 out = (e2, r2, out2)"
    by (cases "redefine_stage table (redefine options) ?r1 out")
  have b: "each (h_redefine_step table ?r) (redefine options) (h @ [?r1]) out
             = (e2, h @ [r2], out2)"
    using each_refines [where hbody = "h_redefine_step table ?r" and body = "redefine_step table"
        and r = ?r and h = "h @ [?r1]" and es = "redefine options" and out = out,
        OF h_redefine_step_eq r']
      s2
    by (simp only: at' upd' redefine_stage_def) simp
  show ?thesis
  proof (cases e2)
    case (Some err)
    then show ?thesis
      by (simp add: h_prepare_row_def h_copy_def a b prepare_row_def s2)
  next
    case None
    obtain e3 r3 out3 where
      s3: "fk_stage table reg (foreignKeys options) r2 out2 = (e3, r3, out3)"
      by (cases "fk_stage table reg (foreignKeys options) r2 out2")
    have c: "each (h_fk_step table reg ?r) (foreignKeys options) (h @ [r2]) out2
               = (e3, h @ [r3], out3)"
      using each_refines [where hbody = "h_fk_step table reg ?r" and body = "fk_step table reg"
          and r = ?r and h = "h @ [r2]" and es = "foreignKeys options" and out = out2,
          OF h_fk_step_eq r']
        s3
      by (simp only: at' upd' fk_stage_def) simp
    show ?thesis
    proof (cases e3)
      case (Some err)
      with None show ?thesis
        by (simp add: h_prepare_row_def h_copy_def a b c prepare_row_def s2 s3)
    next
      case n3: None
      obtain r4 out4 where s4: "drop_stage table (links options) (r3, out3) = (r4, out4)"
        by (cases "drop_stage table (links options) (r3, out3)")
      have d: "fold (\<lambda>e s. h_drop_step table (links options) ?r s e) r3 (h @ [r3], out3)
                 = (h @ [r4], out4)"
        using h_drop_fold [of ?r "h @ [r3]" table "links options" r3 out3] s4
        by (simp add: drop_stage_def)
      show ?thesis
        using None n3
        by (simp add: h_prepare_row_def h_copy_def a b c d prepare_row_def s2 s3 s4)
    qed
  qed
qed

lemma h_prepare_rows_eq:
  assumes "list_all (\<lambda>row. row < length h) rows"
  shows "h_prepare_rows table options reg h rows out =
           (case prepare_rows table options reg (map ((!) h) rows) out of
              (err, ps, out') \<Rightarrow> (err, h @ ps, [length h ..< length h + length ps], out'))"
  using assms
proof (induction rows arbitrary: h out)
  case Nil
  show ?case by simp
next
  case (Cons row rows)
  from Cons.prems have row: "row < length h" and rest: "list_all (\<lambda>row. row < length h) rows"
    by simp_all
  obtain e1 p out1 where p: "prepare_row table options reg (h ! row) out = (e1, p, out1)"
    by (cases "prepare_row table options reg (h ! row) out")
  let ?h1 = "h @ [p]"
  have one: "h_prepare_row table options reg h row out = (e1, ?h1, length h, out1)"
    using h_prepare_row_eq [OF row, of table options reg out] by (simp add: p)
  show ?case
  proof (cases e1)
    case (Some err)
    then show ?thesis by (simp add: one p)
  next
    case None
    have rest1: "list_all (\<lambda>row. row < length ?h1) rows"
      using rest by (auto simp: list_all_iff)
    have same: "map ((!) ?h1) rows = map ((!) h) rows"
      using rest by (auto simp: list_all_iff nth_append)
    obtain e2 ps out2 where
      ps: "prepare_rows table options reg (map ((!) h) rows) out1 = (e2, ps, out2)"
      by (cases "prepare_rows table options reg (map ((!) h) rows) out1")
    have ih: "h_prepare_rows table options reg ?h1 rows out1 =
                (e2, ?h1 @ ps, [length ?h1 ..< length ?h1 + length ps], out2)"
      using Cons.IH [OF rest1, of out1] by (simp add: same ps)
    have u: "[length h ..< length h + length (p # ps)]
               = length h # [length ?h1 ..< length ?h1 + length ps]"
      by (subst upt_rec) simp
    have lhs: "h_prepare_rows table options reg h (row # rows) out =
                 (e2, h @ p # ps, length h # [length ?h1 ..< length ?h1 + length ps], out2)"
      using None by (simp add: one ih)
    have rhs: "prepare_rows table options reg (map ((!) h) (row # rows)) out = (e2, p # ps, out2)"
      using None by (simp add: p ps)
    show ?thesis
      by (simp only: lhs rhs u prod.case)
  qed
qed

section \<open>The claims\<close>

subsection \<open>C1: a call that fails\<close>




subsection \<open>C2: how a link element is resolved\<close>

text \<open>
  C2 says that an explicitly declared owning collection is preferred to the scan.  A
  link configuration is \<^verbatim>\<open>[linkTable, selfIdCol, foreignIdCol, transform?]\<close> and has
  no place for an owning collection; the comment of lines 279-282 names a twin entry of
  the array field in \<^verbatim>\<open>foreignKeys\<close> as the convention for declaring one, and then
  tries every registered sub-map all the same.  Here \<^verbatim>\<open>award_ids\<close> is declared to
  point to \<^verbatim>\<open>awards\<close>, where \<^verbatim>\<open>x1\<close> has id 9; \<^verbatim>\<open>departments\<close>, registered
  earlier, also has an \<^verbatim>\<open>x1\<close>, with id 5, and the link row written is (1, 5).
\<close>

theorem declared_owner_not_preferred_counterexample:
  "(''award_ids'', ''awards'') \<in> set (foreignKeys ex_links_with_twin) \<and>
   spec_resolve_element (Some ''awards'') ex_reg_two_owners (JStr ''x1'') = Some (JNum 9) \<and>
   scan_registry ex_reg_two_owners (JStr ''x1'') = JNum 5 \<and>
   thrown (putToPostgres ex_db_awards ''employees''
             [[(''mongo_id'', JStr ''e2''), (''name'', JStr ''Bob''),
               (''award_ids'', JArr [JStr ''x1''])]]
             ex_links_with_twin ex_reg_two_owners ''employees'') = None \<and>
   table_rows
     (db_after (putToPostgres ex_db_awards ''employees''
                  [[(''mongo_id'', JStr ''e2''), (''name'', JStr ''Bob''),
                    (''award_ids'', JArr [JStr ''x1''])]]
                  ex_links_with_twin ex_reg_two_owners ''employees''))
     ''employees_awards'' = [[(''employee_id'', JNum 1), (''award_id'', JNum 5)]]"
  by code_simp

text \<open>
  C2 as amended: every element is resolved by the scan alone, that is by
  \<^verbatim>\<open>resolveAny\<close>: the first sub-map, in the order of the registry, that has
  \<^verbatim>\<open>String(element)\<close> gives the id, and an element with no id or a falsy one is
  skipped with a warning.  Neither the link configuration nor \<^verbatim>\<open>foreignKeys\<close> is an
  input of this resolution.
\<close>

theorem link_elements_resolve_by_scan:
  "scan_registry reg key = (case spec_resolveAny reg key of None \<Rightarrow> Null | Some (c, v) \<Rightarrow> v) \<and>
   link_elements cfg reg raw selfSqlId (e # rest) linkRows out =
     (case spec_resolve_element None reg (JStr (js_String e)) of
        None \<Rightarrow>
          link_elements cfg reg raw selfSqlId rest linkRows (out @ [WarnLinkSkipMissingFK e])
      | Some v \<Rightarrow>
          if truthy v
          then (case link_extra cfg selfSqlId v raw of
                  Inl msg \<Rightarrow> (Inl msg, out)
                | Inr extra \<Rightarrow>
                    link_elements cfg reg raw selfSqlId rest
                      (linkRows @ [spread (set_prop (set_prop [] (selfIdCol cfg) selfSqlId)
                                             (foreignIdCol cfg) v) extra]) out)
          else link_elements cfg reg raw selfSqlId rest linkRows
                 (out @ [WarnLinkSkipMissingFK e]))"
proof -
  have a: "scan_registry reg k = (case spec_resolveAny reg k of None \<Rightarrow> Null | Some (c, v) \<Rightarrow> v)"
    for k by (rule scan_registry_resolveAny)
  show ?thesis
  proof (cases "spec_resolveAny reg (JStr (js_String e))")
    case None
    then show ?thesis
      using a [of key] by (simp add: a [of "JStr (js_String e)"] spec_resolve_element_def)
  next
    case (Some p)
    obtain c v where p: "p = (c, v)" by (cases p)
    show ?thesis
      using a [of key]
      by (simp add: a [of "JStr (js_String e)"] spec_resolve_element_def Some p Let_def)
  qed
qed

subsection \<open>C3: registering a pair\<close>

text \<open>
  C3 says that registering an existing pair with a different target id fails with a
  ConflictError, so that a registered target id never changes.  The function registers
  with \<^verbatim>\<open>Map.set\<close> and has no such check.  Here the registry maps
  \<^verbatim>\<open>departments/d1\<close> to 5 and the table holds \<^verbatim>\<open>d1\<close> under id 7: the call
  returns normally and the registry maps \<^verbatim>\<open>d1\<close> to 7.
\<close>

theorem register_conflict_counterexample:
  "registry_get ex_reg_d1 ''departments'' (JStr ''d1'') = JNum 5 \<and>
   thrown (putToPostgres ex_db_d1 ''departments'' ex_rows_d1 ex_no_options ex_reg_d1
             ''departments'') = None \<and>
   registry_get
     (registry_after (putToPostgres ex_db_d1 ''departments'' ex_rows_d1 ex_no_options
                        ex_reg_d1 ''departments''))
     ''departments'' (JStr ''d1'') = JNum 7"
  by code_simp

text \<open>
  C3 as amended: registering \<open>(c, k, v)\<close> in an existing sub-map is an unconditional
  \<^verbatim>\<open>Map.set\<close>.  It changes nothing if the pair is there with the same target id;
  otherwise the pair holds \<open>v\<close> afterwards, whatever it held before, and no error is
  raised; no other pair changes.
\<close>

theorem registry_set_overwrites:
  assumes "map_of reg c = Some m"
  shows "(map_of m k = Some v \<longrightarrow> registry_set reg c k v = reg) \<and>
         registry_get (registry_set reg c k v) c k = v \<and>
         (\<forall>c' k'. (c', k') \<noteq> (c, k) \<longrightarrow>
            registry_get (registry_set reg c k v) c' k' = registry_get reg c' k')"
  using assms by (auto simp: registry_set_same registry_get_set)

theorem registry_set_overwrites_witness:
  "map_of ex_reg_d1 ''departments'' = Some [(JStr ''d1'', JNum 5)] \<and>
   map_of [(JStr ''d1'', JNum 5)] (JStr ''d1'') = Some (JNum 5) \<and>
   registry_set ex_reg_d1 ''departments'' (JStr ''d1'') (JNum 5) = ex_reg_d1 \<and>
   registry_get ex_reg_d1 ''departments'' (JStr ''d1'') = JNum 5 \<and>
   registry_get (registry_set ex_reg_d1 ''departments'' (JStr ''d1'') (JNum 7))
     ''departments'' (JStr ''d1'') = JNum 7 \<and>
   (''departments'', JStr ''d2'') \<noteq> (''departments'', JStr ''d1'') \<and>
   registry_get (registry_set ex_reg_d1 ''departments'' (JStr ''d1'') (JNum 7))
     ''departments'' (JStr ''d2'')
     = registry_get ex_reg_d1 ''departments'' (JStr ''d2'')"
proof -
  have h: "map_of ex_reg_d1 ''departments'' = Some [(JStr ''d1'', JNum 5)]"
    by (simp add: ex_reg_d1_def)
  have g: "registry_get ex_reg_d1 ''departments'' (JStr ''d1'') = JNum 5"
    by (simp add: ex_reg_d1_def registry_get_def map_get_def)
  show ?thesis
    using h g registry_set_overwrites [OF h, of "JStr ''d1''" "JNum 5"]
      registry_set_overwrites [OF h, of "JStr ''d1''" "JNum 7"]
    by simp
qed

subsection \<open>C4: running the same migration again\<close>

text \<open>
  C4 says that a second run over the same snapshot inserts nothing, because every
  prepared row whose \<^verbatim>\<open>mongo_id\<close> is in the table is put in the skip set.  The
  table stores \<^verbatim>\<open>mongo_id\<close> as text and the query returns it as a string, while
  lines 245-246 look the prepared value itself up in \<^verbatim>\<open>existingMap\<close>.  Here the
  \<^verbatim>\<open>mongo_id\<close> of the record is the number 5.  The first run inserts the row and
  commits.  On the second run the query finds the row, under the key \<^verbatim>\<open>"5"\<close>; the
  number 5 is not a key of \<^verbatim>\<open>existingMap\<close>, the row is in \<^verbatim>\<open>toInsert\<close>
  again, and the insert violates the unique constraint.
\<close>

theorem numeric_mongo_id_is_inserted_again_counterexample:
  "thrown (putToPostgres ex_db_employees ''employees'' ex_rows_numeric ex_no_options []
             ''employees'') = None \<and>
   \<not> rolled_back (putToPostgres ex_db_employees ''employees'' ex_rows_numeric ex_no_options []
                     ''employees'') \<and>
   table_rows
     (db_after (putToPostgres ex_db_employees ''employees'' ex_rows_numeric ex_no_options []
                  ''employees''))
     ''employees'' = ex_rows_numeric \<and>
   prepared_of ''employees'' ex_no_options (ensure_map [] ''employees'') ex_rows_numeric
     = ex_rows_numeric \<and>
   select_whereIn
     (db_after (putToPostgres ex_db_employees ''employees'' ex_rows_numeric ex_no_options []
                  ''employees''))
     ''employees'' (mongoIds_of ex_rows_numeric) = Inr [(1, JStr ''5'')] \<and>
   toInsert_of (existingMap_of [(1, JStr ''5'')]) ex_rows_numeric = ex_rows_numeric \<and>
   toSkip_of (existingMap_of [(1, JStr ''5'')]) ex_rows_numeric = [] \<and>
   thrown
     (putToPostgres
        (db_after (putToPostgres ex_db_employees ''employees'' ex_rows_numeric ex_no_options []
                     ''employees''))
        ''employees'' ex_rows_numeric ex_no_options [] ''employees'')
     = Some (DbError ''duplicate key value violates unique constraint'') \<and>
   console
     (putToPostgres
        (db_after (putToPostgres ex_db_employees ''employees'' ex_rows_numeric ex_no_options []
                     ''employees''))
        ''employees'' ex_rows_numeric ex_no_options [] ''employees'') = []"
  by code_simp

text \<open>
  C4 as amended: let a call on a non-empty batch return with its transaction committed,
  and let every truthy \<^verbatim>\<open>mongo_id\<close> of its prepared rows be a string (the type of
  the stable identifier).  Run the call again with the same rows, options and registry
  on the database the first call left.  Then the existence query finds every prepared
  row with a truthy \<^verbatim>\<open>mongo_id\<close>: \<^verbatim>\<open>toInsert\<close> is empty and \<^verbatim>\<open>toSkip\<close>
  holds all of them; for each of them the registry ends up with the id the query
  returned for its \<^verbatim>\<open>mongo_id\<close>; the console shows \<^verbatim>\<open>inserted 0\<close>; and the
  rows of the table are the same as before (when the table is not also used as a link
  table).
\<close>

theorem rerun_inserts_nothing:
  assumes ne: "rows \<noteq> []"
    and r1: "res1 = putToPostgres knex table rows options reg self"
    and ok: "thrown res1 = None"
    and com: "\<not> rolled_back res1"
    and pr: "prepared = prepared_of table options (ensure_map reg self) rows"
    and str: "list_all (\<lambda>r. isString (get_prop r ''mongo_id'')
                            \<or> \<not> truthy (get_prop r ''mongo_id'')) prepared"
    and r2: "res2 = putToPostgres (db_after res1) table rows options reg self"
  shows "\<exists>existing2.
           select_whereIn (db_after res1) table (mongoIds_of prepared) = Inr existing2 \<and>
           toInsert_of (existingMap_of existing2) prepared = [] \<and>
           toSkip_of (existingMap_of existing2) prepared
             = filter (\<lambda>r. truthy (get_prop r ''mongo_id'')) prepared \<and>
           (\<forall>r \<in> set (toSkip_of (existingMap_of existing2) prepared).
              \<exists>i. (i, get_prop r ''mongo_id'') \<in> set existing2 \<and>
                  registry_get (registry_after res2) self (get_prop r ''mongo_id'') = JNum i) \<and>
           LogInserted table 0 \<in> set (console res2) \<and>
           (table \<notin> linkTable ` snd ` set (links options) \<longrightarrow>
              table_rows (db_after res2) table = table_rows (db_after res1) table)"
proof -
  let ?reg0 = "ensure_map reg self"
  let ?trx1 = "fst (schema_check (begin_transaction knex) table [])"
  let ?out0 = "snd (schema_check (begin_transaction knex) table [])"
  let ?mid = "\<lambda>r. get_prop r ''mongo_id''"
  from putToPostgres_success [OF ne, of knex table options reg self] ok
  obtain prepared0 out1 existing1 trx2 reg2 out2 out3 db1 where
    p0: "prepare_rows table options ?reg0 rows ?out0 = (None, prepared0, out1)" and
    sel0: "select_whereIn ?trx1 table (mongoIds_of prepared0) = Inr existing1" and
    up0: "upsert ?trx1 table ?reg0 self (existingMap_of existing1) prepared0 out1
            = (Inr trx2, reg2, out2)" and
    ml0: "materialize_links table self reg2 rows (links options) trx2 out2 = (Inr db1, out3)" and
    rb: "rolled_back res1 = aborted db1" and
    dba: "db_after res1 = (if aborted db1 then knex else db1)"
    unfolding r1 by blast
  have same: "prepared0 = prepared"
    using prepared_of_success [OF p0] by (simp add: pr)
  note sel1 = sel0 [unfolded same]
  have up1: "fst (upsert ?trx1 table ?reg0 self (existingMap_of existing1) prepared out1)
               = Inr trx2"
    by (simp add: up0 same [symmetric])
  have ml1: "fst (materialize_links table self reg2 rows (links options) trx2 out2) = Inr db1"
    by (simp add: ml0)
  have na: "\<not> aborted db1" using com by (simp add: rb)
  have db1: "db_after res1 = db1" using na by (simp add: dba)
  \<comment> \<open>the database the first run leaves\<close>
  have col1: "hasColumn ?trx1 table"
    using sel1 select_whereIn_hasColumn [of ?trx1 table "mongoIds_of prepared"] by blast
  have col: "hasColumn db1 table"
    using col1 upsert_hasColumn [OF up1, of table] materialize_links_hasColumn [OF ml1, of table]
    by simp
  have drv: "driver_text db1 = driver_text ?trx1"
    using upsert_driver [OF up1] materialize_links_driver [OF ml1] by simp
  have rows2: "table_rows trx2 table
                 = table_rows ?trx1 table @ toInsert_of (existingMap_of existing1) prepared"
    using upsert_table_rows [OF up1, of table] by simp
  have rows1: "set (table_rows trx2 table) \<subseteq> set (table_rows db1 table)"
    by (rule materialize_links_table_rows [OF ml1])
  \<comment> \<open>the second existence query\<close>
  from col na obtain existing2 where
    sel2: "select_whereIn db1 table (mongoIds_of prepared) = Inr existing2"
    using select_whereIn_hasColumn [of db1 table "mongoIds_of prepared"] by blast
  let ?em2 = "existingMap_of existing2"
  have present: "map_has ?em2 (?mid r)" if r: "r \<in> set prepared" and t: "truthy (?mid r)" for r
  proof -
    from str r t have "isString (?mid r)" by (auto simp: list_all_iff)
    then obtain s where s: "?mid r = JStr s" by (cases "?mid r") simp_all
    have a: "Some s \<in> set (map (column_text db1) (mongoIds_of prepared))"
      using r t s by (force simp: mongoIds_of_def column_text_JStr image_iff)
    have "\<exists>r0 \<in> set (table_rows db1 table). mongo_text db1 r0 = Some s"
    proof (cases "map_has (existingMap_of existing1) (JStr s)")
      case True
      then have "Some s \<in> set (map (mongo_text ?trx1) (table_rows ?trx1 table))"
        using select_whereIn_keys [OF sel1, of "JStr s"] by (auto simp: existingMap_has)
      then obtain r0 where "r0 \<in> set (table_rows ?trx1 table)" "mongo_text ?trx1 r0 = Some s"
        by auto
      then show ?thesis
        using rows1 rows2 mongo_text_driver [OF drv, of r0] by auto
    next
      case False
      with r t s have "r \<in> set (toInsert_of (existingMap_of existing1) prepared)"
        by (simp add: toInsert_of_def)
      moreover have "mongo_text db1 r = Some s"
        by (simp add: mongo_text_def s column_text_JStr)
      ultimately show ?thesis using rows1 rows2 by auto
    qed
    then have b: "Some s \<in> set (map (mongo_text db1) (table_rows db1 table))"
      by (force simp: image_iff)
    from a b show ?thesis
      using select_whereIn_keys [OF sel2, of "JStr s"] by (simp add: existingMap_has s)
  qed
  have ti: "toInsert_of ?em2 prepared = []"
    using present by (auto simp: toInsert_of_def filter_empty_conv)
  have ts: "toSkip_of ?em2 prepared = filter (\<lambda>r. truthy (?mid r)) prepared"
    unfolding toSkip_of_def using present by (auto intro: filter_cong)
  \<comment> \<open>the second run\<close>
  let ?regS = "register_skipped ?reg0 self ?em2 (toSkip_of ?em2 prepared)"
  obtain w where prw: "prepare_rows table options ?reg0 rows [] = (None, prepared, w)"
    using prepare_rows_console [of table options ?reg0 rows ?out0]
    by (cases "prepare_rows table options ?reg0 rows []") (simp add: p0 same)
  let ?outS = "(if toSkip_of ?em2 prepared \<noteq> []
                then w @ [LogAlreadyExist table (length (toSkip_of ?em2 prepared))] else w)
               @ [LogInserted table 0]"
  obtain res3 out3' where
    ml2: "materialize_links table self ?regS rows (links options) db1 ?outS = (res3, out3')"
    by (cases "materialize_links table self ?regS rows (links options) db1 ?outS")
  have body: "transaction_body (begin_transaction db1) table rows options ?reg0 self
                = (res3, ?regS, out3')"
    using upsert_nothing_to_insert [OF ti, of db1 table ?reg0 self w] ml2
    by (simp add: transaction_body_def begin_transaction_id [OF na]
        schema_check_present [OF col] prw sel2)
  have reg_after: "registry_after res2 = ?regS" and con: "console res2 = out3'"
    using ne by (cases res3; simp add: r2 db1 putToPostgres_def body)+
  have logged: "LogInserted table 0 \<in> set (console res2)"
    using materialize_links_out [of ?outS table self ?regS rows "links options" db1]
    by (auto simp: con ml2)
  have recorded: "\<exists>i. (i, ?mid r) \<in> set existing2 \<and>
                      registry_get (registry_after res2) self (?mid r) = JNum i"
    if r: "r \<in> set (toSkip_of ?em2 prepared)" for r
  proof -
    from r have h: "map_has ?em2 (?mid r)" by (simp add: toSkip_of_def)
    from existingMap_get [OF h] obtain i where
      i: "(i, ?mid r) \<in> set existing2" "map_get ?em2 (?mid r) = JNum i" by blast
    have "registry_get ?regS self (?mid r) = map_get ?em2 (?mid r)"
      using register_skipped_get [OF ensure_map_self, of reg self ?em2
          "toSkip_of ?em2 prepared" self "?mid r"] r
      by simp
    with i show ?thesis by (auto simp: reg_after)
  qed
  have unchanged: "table_rows (db_after res2) table = table_rows (db_after res1) table"
    if nl: "table \<notin> linkTable ` snd ` set (links options)"
  proof (cases res3)
    case (Inl e)
    then show ?thesis using ne by (simp add: r2 db1 putToPostgres_def body)
  next
    case (Inr db2)
    show ?thesis
    proof (cases "aborted db2")
      case True
      with Inr show ?thesis using ne by (simp add: r2 db1 putToPostgres_def body)
    next
      case False
      with Inr have d: "db_after res2 = db2"
        using ne by (simp add: r2 db1 putToPostgres_def body)
      have "fst (materialize_links table self ?regS rows (links options) db1 ?outS) = Inr db2"
        by (simp add: ml2 Inr)
      from materialize_links_other_table [OF this nl] show ?thesis by (simp add: d db1)
    qed
  qed
  show ?thesis
    using sel2 ti ts recorded logged unchanged unfolding db1 by blast
qed

theorem rerun_inserts_nothing_witness:
  "ex_rows_two \<noteq> [] \<and>
   thrown (putToPostgres ex_db_employees ''employees'' ex_rows_two ex_no_options [] ''employees'')
     = None \<and>
   \<not> rolled_back (putToPostgres ex_db_employees ''employees'' ex_rows_two ex_no_options []
                     ''employees'') \<and>
   list_all (\<lambda>r. isString (get_prop r ''mongo_id'') \<or> \<not> truthy (get_prop r ''mongo_id''))
     (prepared_of ''employees'' ex_no_options (ensure_map [] ''employees'') ex_rows_two) \<and>
   table_rows
     (db_after (putToPostgres ex_db_employees ''employees'' ex_rows_two ex_no_options []
                  ''employees''))
     ''employees'' = ex_rows_two \<and>
   LogInserted ''employees'' 0
     \<in> set (console
         (putToPostgres
            (db_after (putToPostgres ex_db_employees ''employees'' ex_rows_two ex_no_options []
                         ''employees''))
            ''employees'' ex_rows_two ex_no_options [] ''employees'')) \<and>
   ''employees'' \<notin> linkTable ` snd ` set (links ex_no_options) \<and>
   table_rows
     (db_after
        (putToPostgres
           (db_after (putToPostgres ex_db_employees ''employees'' ex_rows_two ex_no_options []
                        ''employees''))
           ''employees'' ex_rows_two ex_no_options [] ''employees''))
     ''employees'' = ex_rows_two"
proof -
  let ?res1 = "putToPostgres ex_db_employees ''employees'' ex_rows_two ex_no_options []
                 ''employees''"
  let ?res2 = "putToPostgres (db_after ?res1) ''employees'' ex_rows_two ex_no_options []
                 ''employees''"
  have ne: "ex_rows_two \<noteq> []" by (simp add: ex_rows_two_def)
  have ok: "thrown ?res1 = None" by code_simp
  have com: "\<not> rolled_back ?res1" by code_simp
  have str: "list_all (\<lambda>r. isString (get_prop r ''mongo_id'')
                            \<or> \<not> truthy (get_prop r ''mongo_id''))
     (prepared_of ''employees'' ex_no_options (ensure_map [] ''employees'') ex_rows_two)"
    by code_simp
  have nl: "''employees'' \<notin> linkTable ` snd ` set (links ex_no_options)"
    by (simp add: ex_no_options_def)
  have rows1: "table_rows (db_after ?res1) ''employees'' = ex_rows_two" by code_simp
  note T = rerun_inserts_nothing [OF ne refl ok com refl str refl]
  from T have logged: "LogInserted ''employees'' 0 \<in> set (console ?res2)" by blast
  from T nl have "table_rows (db_after ?res2) ''employees'' = table_rows (db_after ?res1) ''employees''"
    by blast
  with rows1 have rows2: "table_rows (db_after ?res2) ''employees'' = ex_rows_two" by simp
  show ?thesis using ne ok com str rows1 logged nl rows2 by blast
qed

subsection \<open>C5: a foreign key that cannot be resolved\<close>




subsection \<open>C6: array elision\<close>

text \<open>
  C6 says that every array-valued field whose name is not a key of \<^verbatim>\<open>links\<close> is
  removed.  The test \<^verbatim>\<open>!links[key]\<close> also finds the properties \<^verbatim>\<open>links\<close>
  inherits from \<^verbatim>\<open>Object.prototype\<close>: with no links configured, the array field
  \<^verbatim>\<open>constructor\<close> of a record stays in the prepared row and is written to the table.
\<close>

theorem inherited_name_array_is_kept:
  "isArray (get_prop ex_row_constructor ''constructor'') \<and>
   ''constructor'' \<notin> set (map fst (links ex_no_options)) \<and>
   prepare_row ''employees'' ex_no_options [] ex_row_constructor [] =
     (None, [(''mongo_id'', JStr ''e1''), (''constructor'', JArr [JStr ''x''])],
      [WarnDropArray ''employees'' ''tags'']) \<and>
   thrown (putToPostgres ex_db_employees ''employees'' [ex_row_constructor] ex_no_options []
             ''employees'') = None \<and>
   \<not> rolled_back (putToPostgres ex_db_employees ''employees'' [ex_row_constructor]
                     ex_no_options [] ''employees'') \<and>
   table_rows
     (db_after (putToPostgres ex_db_employees ''employees'' [ex_row_constructor] ex_no_options []
                  ''employees''))
     ''employees'' = [[(''mongo_id'', JStr ''e1''), (''constructor'', JArr [JStr ''x''])]]"
  by code_simp

subsection \<open>C7: link rows when every element resolves\<close>




subsection \<open>C8: the redefine stage\<close>

text \<open>
  C8 says that a mapper that throws leaves a warning and the old value, and that the
  record goes on.  The handler of lines 189-191 prints \<^verbatim>\<open>e.message\<close>.  A mapper
  can throw any value; when it throws \<^verbatim>\<open>null\<close> (or \<^verbatim>\<open>undefined\<close>), reading
  \<^verbatim>\<open>e.message\<close> throws a TypeError inside the handler: no warning is printed, the
  callback of \<^verbatim>\<open>rows.map\<close> is left, and the call is rejected and rolled back
  with nothing written.  With a mapper that throws \<^verbatim>\<open>new Error("boom")\<close> the same
  call does what C8 says: the warning is printed, \<^verbatim>\<open>name\<close> keeps its value, the
  next entry is applied and the row is written.
\<close>

theorem redefine_handler_throws_on_null:
  "has_own ex_person ''name'' \<and>
   thrown (putToPostgres ex_db_employees ''employees'' [ex_person] ex_redefine_null []
             ''employees'')
     = Some (TypeError ''Cannot read properties of null'') \<and>
   console (putToPostgres ex_db_employees ''employees'' [ex_person] ex_redefine_null []
              ''employees'') = [] \<and>
   rolled_back (putToPostgres ex_db_employees ''employees'' [ex_person] ex_redefine_null []
                  ''employees'') \<and>
   table_rows
     (db_after (putToPostgres ex_db_employees ''employees'' [ex_person] ex_redefine_null []
                  ''employees''))
     ''employees'' = [] \<and>
   thrown (putToPostgres ex_db_employees ''employees'' [ex_person] ex_redefine_options []
             ''employees'') = None \<and>
   console (putToPostgres ex_db_employees ''employees'' [ex_person] ex_redefine_options []
              ''employees'')
     = [WarnRedefineFail ''employees'' ''name'' ''boom'', LogInserted ''employees'' 1] \<and>
   table_rows
     (db_after (putToPostgres ex_db_employees ''employees'' [ex_person] ex_redefine_options []
                  ''employees''))
     ''employees''
     = [[(''mongo_id'', JStr ''e1''), (''name'', JStr ''Ann''),
         (''age'', JObj [(''was'', JNum 41), (''name'', JStr ''Ann'')])]]"
  by code_simp

subsection \<open>C9: the source records are not mutated\<close>

text \<open>
  C9: run the transformation on a store that holds the source records.  Afterwards every
  object that was in the store, and so every source record with all its fields and
  array values, is as it was, whether the transformation has returned or thrown: the
  store has only grown, by one new object for each record the callback was called for.
  The outcome, the new objects and the console are those of \<open>prepare_rows\<close>; when the
  transformation returns, there is one new object for each record, and they are the
  prepared rows.  The stages after the transformation only read the records.
\<close>

theorem source_records_are_not_mutated:
  assumes "list_all (\<lambda>row. row < length h) rows"
    and "h_prepare_rows table options reg h rows out = (err, h', prepared, out')"
  shows "take (length h) h' = h \<and>
         map ((!) h') rows = map ((!) h) rows \<and>
         prepared = [length h ..< length h + length prepared] \<and>
         (err = None \<longrightarrow> prepared = [length h ..< length h + length rows]) \<and>
         (err, map ((!) h') prepared, out') = prepare_rows table options reg (map ((!) h) rows) out"
proof -
  obtain e ps out2 where
    ps: "prepare_rows table options reg (map ((!) h) rows) out = (e, ps, out2)"
    by (cases "prepare_rows table options reg (map ((!) h) rows) out")
  from h_prepare_rows_eq [OF assms(1), of table options reg out] assms(2)
  have e: "err = e" and h': "h' = h @ ps"
    and pr: "prepared = [length h ..< length h + length ps]" and o: "out' = out2"
    by (simp_all add: ps)
  have lp: "length prepared = length ps" by (simp add: pr)
  have len: "length ps = length rows" if "err = None"
    using length_prepare_rows [of table options reg "map ((!) h) rows" out ps out2] that
    by (simp add: ps e)
  have a: "take (length h) h' = h" by (simp add: h')
  have b: "map ((!) h') rows = map ((!) h) rows"
    using assms(1) by (auto simp: h' list_all_iff nth_append)
  have c: "map ((!) h') prepared = ps"
    unfolding h' pr
    by (rule nth_equalityI) (simp_all add: nth_append)
  have d: "prepared = [length h ..< length h + length prepared]"
    by (simp only: lp) (rule pr)
  have f: "prepared = [length h ..< length h + length rows]" if "err = None"
    using pr len [OF that] by simp
  from a b c d f e o ps show ?thesis by simp
qed

theorem source_records_are_not_mutated_witness:
  "list_all (\<lambda>row. row < length ex_heap) [0] \<and>
   h_prepare_rows ''employees'' ex_all_stages ex_reg_departments ex_heap [0] []
     = (None,
        [[(''mongo_id'', JStr ''e1''), (''name'', JStr ''Ann''), (''department'', JStr ''d9''),
          (''tags'', JArr [JStr ''x''])],
         [(''mongo_id'', JStr ''e1''), (''department'', Null), (''full_name'', JStr ''Ann'')]],
        [1],
        [WarnMissingFK ''employees'' ''department'' (JStr ''d9''),
         WarnDropArray ''employees'' ''tags'']) \<and>
   take (length ex_heap)
     (fst (snd (h_prepare_rows ''employees'' ex_all_stages ex_reg_departments ex_heap [0] [])))
     = ex_heap \<and>
   map ((!) (fst (snd (h_prepare_rows ''employees'' ex_all_stages ex_reg_departments ex_heap
                         [0] []))))
     [0] = map ((!) ex_heap) [0] \<and>
   fst (snd (snd (h_prepare_rows ''employees'' ex_all_stages ex_reg_departments ex_heap [0] [])))
     = [1] \<and>
   fst (h_prepare_rows ''employees'' ex_redefine_null ex_reg_departments ex_heap [0] [])
     = Some (TypeError ''Cannot read properties of null'') \<and>
   take (length ex_heap)
     (fst (snd (h_prepare_rows ''employees'' ex_redefine_null ex_reg_departments ex_heap [0] [])))
     = ex_heap"
proof -
  let ?res = "h_prepare_rows ''employees'' ex_all_stages ex_reg_departments ex_heap [0] []"
  let ?bad = "h_prepare_rows ''employees'' ex_redefine_null ex_reg_departments ex_heap [0] []"
  have v: "list_all (\<lambda>row. row < length ex_heap) [0]" by (simp add: ex_heap_def)
  have e: "?res = (None,
        [[(''mongo_id'', JStr ''e1''), (''name'', JStr ''Ann''), (''department'', JStr ''d9''),
          (''tags'', JArr [JStr ''x''])],
         [(''mongo_id'', JStr ''e1''), (''department'', Null), (''full_name'', JStr ''Ann'')]],
        [1],
        [WarnMissingFK ''employees'' ''department'' (JStr ''d9''),
         WarnDropArray ''employees'' ''tags''])"
    by code_simp
  obtain h' prepared out' where r: "?res = (None, h', prepared, out')"
    using e by blast
  have fr: "fst (snd ?res) = h'" by (simp only: r fst_conv snd_conv)
  have sr: "fst (snd (snd ?res)) = prepared" by (simp only: r fst_conv snd_conv)
  note T = source_records_are_not_mutated [OF v r]
  from T have a: "take (length ex_heap) (fst (snd ?res)) = ex_heap" unfolding fr by blast
  from T have b: "map ((!) (fst (snd ?res))) [0] = map ((!) ex_heap) [0]" unfolding fr by blast
  from T have "prepared = [length ex_heap ..< length ex_heap + length [0::nat]]" by blast
  then have c: "fst (snd (snd ?res)) = [1]" unfolding sr by (simp add: ex_heap_def)
  have t: "fst ?bad = Some (TypeError ''Cannot read properties of null'')" by code_simp
  obtain err2 h2 prepared2 out2 where r2: "?bad = (err2, h2, prepared2, out2)"
    by (cases ?bad)
  have fr2: "fst (snd ?bad) = h2" by (simp only: r2 fst_conv snd_conv)
  from source_records_are_not_mutated [OF v r2]
  have d: "take (length ex_heap) (fst (snd ?bad)) = ex_heap" unfolding fr2 by blast
  show ?thesis using v e a b c t d by blast
qed

subsection \<open>C10: rows without a usable \<^verbatim>\<open>mongo_id\<close>\<close>

text \<open>
  C10: a prepared row whose \<^verbatim>\<open>mongo_id\<close> is absent or falsy is in neither
  \<^verbatim>\<open>toInsert\<close> nor \<^verbatim>\<open>toSkip\<close>, and a row with a truthy \<^verbatim>\<open>mongo_id\<close> is
  in exactly one of them.  The upsert (skip registration, insert, registration of the
  inserted rows) gives the same database, registry and console when the falsy rows are
  removed from its input, and when it succeeds the rows it has added to the table are
  exactly \<^verbatim>\<open>toInsert\<close>: a falsy row is never written and nothing is registered for it.
\<close>

theorem falsy_mongo_id_rows_are_left_out:
  assumes "r \<in> set prepared"
  shows "(\<not> truthy (get_prop r ''mongo_id'') \<longrightarrow>
            r \<notin> set (toInsert_of em prepared) \<and> r \<notin> set (toSkip_of em prepared)) \<and>
         (truthy (get_prop r ''mongo_id'') \<longrightarrow>
            (r \<in> set (toInsert_of em prepared)) \<noteq> (r \<in> set (toSkip_of em prepared))) \<and>
         upsert trx table reg self em prepared out =
           upsert trx table reg self em
             (filter (\<lambda>r. truthy (get_prop r ''mongo_id'')) prepared) out \<and>
         (\<forall>trx'. fst (upsert trx table reg self em prepared out) = Inr trx' \<longrightarrow>
            table_rows trx' table = table_rows trx table @ toInsert_of em prepared)"
  using toInsert_toSkip_partition [OF assms, of em]
    upsert_ignores_falsy [of trx table reg self em prepared out]
    upsert_table_rows [of trx table reg self em prepared out _ table]
  by simp

theorem falsy_mongo_id_rows_are_left_out_witness:
  "[(''mongo_id'', Null), (''name'', JStr ''Ann'')] \<in> set ex_prepared_mixed \<and>
   \<not> truthy (get_prop [(''mongo_id'', Null), (''name'', JStr ''Ann'')] ''mongo_id'') \<and>
   [(''mongo_id'', Null), (''name'', JStr ''Ann'')] \<notin> set (toInsert_of [] ex_prepared_mixed) \<and>
   [(''mongo_id'', Null), (''name'', JStr ''Ann'')] \<notin> set (toSkip_of [] ex_prepared_mixed) \<and>
   [(''mongo_id'', JStr ''e2''), (''name'', JStr ''Bob'')] \<in> set ex_prepared_mixed \<and>
   truthy (get_prop [(''mongo_id'', JStr ''e2''), (''name'', JStr ''Bob'')] ''mongo_id'') \<and>
   [(''mongo_id'', JStr ''e2''), (''name'', JStr ''Bob'')] \<in> set (toInsert_of [] ex_prepared_mixed) \<and>
   [(''mongo_id'', JStr ''e2''), (''name'', JStr ''Bob'')] \<notin> set (toSkip_of [] ex_prepared_mixed) \<and>
   (case fst (upsert ex_db_employees ''employees'' [(''employees'', [])] ''employees'' []
                ex_prepared_mixed []) of
      Inl e \<Rightarrow> False
    | Inr trx' \<Rightarrow>
        table_rows trx' ''employees'' = [[(''mongo_id'', JStr ''e2''), (''name'', JStr ''Bob'')]])"
proof -
  let ?a = "[(''mongo_id'', Null), (''name'', JStr ''Ann'')]"
  let ?b = "[(''mongo_id'', JStr ''e2''), (''name'', JStr ''Bob'')]"
  let ?u = "upsert ex_db_employees ''employees'' [(''employees'', [])] ''employees'' []
              ex_prepared_mixed []"
  have a: "?a \<in> set ex_prepared_mixed" and b: "?b \<in> set ex_prepared_mixed"
    by (simp_all add: ex_prepared_mixed_def)
  have fa: "\<not> truthy (get_prop ?a ''mongo_id'')" and tb: "truthy (get_prop ?b ''mongo_id'')"
    by (simp_all add: get_prop_def)
  have ins: "toInsert_of [] ex_prepared_mixed = [?b]"
    by (simp add: toInsert_of_def ex_prepared_mixed_def get_prop_def map_has_def)
  have rows0: "table_rows ex_db_employees ''employees'' = []"
    by (simp add: table_rows_def ex_db_employees_def ex_table_def)
  have ok: "case fst ?u of Inl e \<Rightarrow> False | Inr trx' \<Rightarrow> True"
    by code_simp
  then obtain trx' where u: "fst ?u = Inr trx'"
    by (cases "fst ?u") simp_all
  note A = falsy_mongo_id_rows_are_left_out [OF a, of "[]" ex_db_employees "''employees''"
      "[(''employees'', [])]" "''employees''" "[]"]
  note B = falsy_mongo_id_rows_are_left_out [OF b, of "[]" ex_db_employees "''employees''"
      "[(''employees'', [])]" "''employees''" "[]"]
  from A u have rows: "table_rows trx' ''employees'' = [?b]"
    by (simp add: ins rows0)
  from A fa have na:
    "?a \<notin> set (toInsert_of [] ex_prepared_mixed) \<and> ?a \<notin> set (toSkip_of [] ex_prepared_mixed)"
    by blast
  from B tb ins have nb: "?b \<notin> set (toSkip_of [] ex_prepared_mixed)"
    by simp
  show ?thesis
    using a b fa tb na nb ins rows u by simp
qed

end
